theory Spec2Isabelle
  imports Complex_Main "HOL-Library.Char_ord" "HOL-Library.List_Lexorder" "HOL-Library.Sublist"
begin

section \<open>Data model of \<^verbatim>\<open>db.py\<close>\<close>

text \<open>
  \<^verbatim>\<open>KVStore.data\<close> is a list of \<^verbatim>\<open>(key, value, ttl)\<close> tuples kept in key order; \<^verbatim>\<open>ttl\<close> is
  \<^verbatim>\<open>None\<close> or an absolute deadline in milliseconds. Python compares \<^verbatim>\<open>str\<close> by code point,
  which is the lexicographic order on the UTF-8 bytes, the order of \<^typ>\<open>string\<close> here.
  Clock readings, deadlines and durations are Python floats; they are modelled as reals
  (rounding and the non-finite floats are left out). Every operation reads the clock
  through its argument \<open>now\<close>, the value of \<^verbatim>\<open>time.time() * 1000\<close>; the clock does not
  advance inside one operation.
\<close>

type_synonym entry = "string \<times> string \<times> real option"

text \<open>
  An element of \<^verbatim>\<open>transaction_buffer\<close> is a pair \<^verbatim>\<open>(op, args)\<close> with \<^verbatim>\<open>op\<close> one of
  \<^verbatim>\<open>"SET"\<close>, \<^verbatim>\<open>"DEL"\<close>, \<^verbatim>\<open>"EXPIRE"\<close>; the arguments are \<^verbatim>\<open>(key, value, ttl)\<close>, \<^verbatim>\<open>(key,)\<close>
  and \<^verbatim>\<open>(key, milliseconds)\<close>, the last with the duration still as the string received.
\<close>

datatype intent =
    ISet string string "real option"
  | IDel string
  | IExpire string string

text \<open>
  The object state. \<^verbatim>\<open>transaction_buffer\<close> is \<^verbatim>\<open>None\<close> outside a transaction. \<open>log_file\<close> is
  the content of \<^verbatim>\<open>data.db\<close>, \<open>None\<close> while the file does not exist.
\<close>

record kvstore =
  data :: "entry list"
  transaction_buffer :: "intent list option"
  log_file :: "string option"

datatype py_error = ValueError

text \<open>
  The builtin \<^verbatim>\<open>float(s)\<close> is a parameter \<open>pf\<close> of the operations that call it: \<open>None\<close> is
  the \<^verbatim>\<open>ValueError\<close> it raises.
\<close>

type_synonym pyfloat = "string \<Rightarrow> real option"

section \<open>List primitives\<close>

text \<open>\<^verbatim>\<open>list.pop(i)\<close> and \<^verbatim>\<open>list.insert(i, x)\<close> for an index in range.\<close>

definition pop_at :: "nat \<Rightarrow> 'a list \<Rightarrow> 'a list" where
  "pop_at i xs = take i xs @ drop (Suc i) xs"

definition insert_at :: "nat \<Rightarrow> 'a \<Rightarrow> 'a list \<Rightarrow> 'a list" where
  "insert_at i x xs = take i xs @ x # drop i xs"

section \<open>Ordered keyspace\<close>

text \<open>The \<^verbatim>\<open>while lo <= hi\<close> loop of \<^verbatim>\<open>_find_key_index\<close>.\<close>

function find_loop :: "string list \<Rightarrow> string \<Rightarrow> int \<Rightarrow> int \<Rightarrow> int" where
  "find_loop keys key lo hi =
     (if lo \<le> hi then
        (let mid = (lo + hi) div 2 in
         if keys ! nat mid = key then mid
         else if keys ! nat mid < key then find_loop keys key (mid + 1) hi
         else find_loop keys key lo (mid - 1))
      else - 1)"
  by pat_completeness auto
termination
  by (relation "measure (\<lambda>(keys, key, lo, hi). nat (hi - lo + 1))") auto

definition find_key_index :: "kvstore \<Rightarrow> string \<Rightarrow> int" where
  "find_key_index st key =
     (let keys = map fst (data st) in find_loop keys key 0 (int (length keys) - 1))"

text \<open>\<^verbatim>\<open>bisect.bisect_left(a, x)\<close>: the loop of the standard library.\<close>

function bisect_loop :: "string list \<Rightarrow> string \<Rightarrow> nat \<Rightarrow> nat \<Rightarrow> nat" where
  "bisect_loop a x lo hi =
     (if lo < hi then
        (let mid = (lo + hi) div 2 in
         if a ! mid < x then bisect_loop a x (mid + 1) hi
         else bisect_loop a x lo mid)
      else lo)"
  by pat_completeness auto
termination
  by (relation "measure (\<lambda>(a, x, lo, hi). hi - lo)") auto

definition bisect_left :: "string list \<Rightarrow> string \<Rightarrow> nat" where
  "bisect_left a x = bisect_loop a x 0 (length a)"

text \<open>
  \<^verbatim>\<open>_is_expired(index)\<close>: the answer and the store, from which an expired record has been
  popped.
\<close>

definition is_expired :: "real \<Rightarrow> kvstore \<Rightarrow> int \<Rightarrow> bool \<times> kvstore" where
  "is_expired now st index =
     (if index < 0 \<or> index \<ge> int (length (data st)) then (True, st)
      else
        (case data st ! nat index of
           (_, _, ttl) \<Rightarrow>
             (case ttl of
                Some t \<Rightarrow>
                  if now > t then (True, st\<lparr>data := pop_at (nat index) (data st)\<rparr>)
                  else (False, st)
              | None \<Rightarrow> (False, st))))"

text \<open>\<^verbatim>\<open>_get_key_index(key, check_expired)\<close>; \<^verbatim>\<open>and\<close> evaluates \<^verbatim>\<open>_is_expired\<close> only when asked.\<close>

definition get_key_index :: "real \<Rightarrow> kvstore \<Rightarrow> string \<Rightarrow> bool \<Rightarrow> int \<times> kvstore" where
  "get_key_index now st key check_expired =
     (let index = find_key_index st key in
      if index = - 1 then (- 1, st)
      else if check_expired then
        (case is_expired now st index of
           (True, st') \<Rightarrow> (- 1, st')
         | (False, st') \<Rightarrow> (index, st'))
      else (index, st))"

text \<open>\<^verbatim>\<open>_set_key(key, value, ttl)\<close>.\<close>

definition set_key :: "kvstore \<Rightarrow> string \<Rightarrow> string \<Rightarrow> real option \<Rightarrow> kvstore" where
  "set_key st key val ttl =
     (let index = find_key_index st key in
      if index \<noteq> - 1 then
        (let current_ttl = snd (snd (data st ! nat index));
             new_ttl = (if ttl \<noteq> None then ttl else current_ttl)
         in st\<lparr>data := (data st)[nat index := (key, val, new_ttl)]\<rparr>)
      else
        (let new_item = (key, val, ttl);
             keys = map fst (data st);
             insert_pos = bisect_left keys key
         in st\<lparr>data := insert_at insert_pos new_item (data st)\<rparr>))"

text \<open>\<^verbatim>\<open>_delete_key(key)\<close>.\<close>

definition delete_key :: "kvstore \<Rightarrow> string \<Rightarrow> bool \<times> kvstore" where
  "delete_key st key =
     (let index = find_key_index st key in
      if index \<noteq> - 1 then (True, st\<lparr>data := pop_at (nat index) (data st)\<rparr>)
      else (False, st))"

section \<open>Durability log\<close>

text \<open>\<^verbatim>\<open>_write_to_log(command)\<close>: mode \<^verbatim>\<open>'a'\<close> creates the file when it is missing.\<close>

definition write_to_log :: "kvstore \<Rightarrow> string \<Rightarrow> kvstore" where
  "write_to_log st command =
     st\<lparr>log_file := Some ((case log_file st of None \<Rightarrow> [] | Some s \<Rightarrow> s) @ command @ [CHR 0x0A])\<rparr>"

section \<open>Text helpers\<close>

text \<open>
  The characters \<^verbatim>\<open>str.strip()\<close> and \<^verbatim>\<open>str.split()\<close> treat as whitespace, in the ASCII
  range: tab, line feed, vertical tab, form feed, carriage return, the separators
  \<^verbatim>\<open>0x1C\<close> to \<^verbatim>\<open>0x1F\<close>, and the space.
\<close>

definition is_space :: "char \<Rightarrow> bool" where
  "is_space c = (let n = (of_char c :: nat) in (9 \<le> n \<and> n \<le> 13) \<or> (28 \<le> n \<and> n \<le> 32))"

definition py_strip :: "string \<Rightarrow> string" where
  "py_strip s = rev (dropWhile is_space (rev (dropWhile is_space s)))"

text \<open>\<^verbatim>\<open>s.split()\<close>: the maximal runs of non-whitespace; \<open>cur\<close> is the current run, reversed.\<close>

fun split_acc :: "string \<Rightarrow> string \<Rightarrow> string list" where
  "split_acc cur [] = (if cur = [] then [] else [rev cur])"
| "split_acc cur (c # cs) =
     (if is_space c then
        (if cur = [] then split_acc [] cs else rev cur # split_acc [] cs)
      else split_acc (c # cur) cs)"

definition py_split :: "string \<Rightarrow> string list" where
  "py_split s = split_acc [] s"

text \<open>\<^verbatim>\<open>" ".join(parts)\<close>.\<close>

fun py_join :: "string list \<Rightarrow> string" where
  "py_join [] = []"
| "py_join [p] = p"
| "py_join (p # q # ps) = p @ CHR '' '' # py_join (q # ps)"

text \<open>
  \<^verbatim>\<open>for line in f\<close> on a file opened in text mode: a line ends at LF, CR or CR LF. The
  lines are given without their terminator, which \<^verbatim>\<open>line.strip()\<close> removes anyway. \<open>cr\<close>
  holds when the previous character was a CR, whose LF is then part of the same
  terminator.
\<close>

fun lines_acc :: "bool \<Rightarrow> string \<Rightarrow> string \<Rightarrow> string list" where
  "lines_acc cr cur [] = (if cur = [] then [] else [rev cur])"
| "lines_acc cr cur (c # cs) =
     (if c = CHR 0x0A then
        (if cr then lines_acc False [] cs else rev cur # lines_acc False [] cs)
      else if c = CHR 0x0D then rev cur # lines_acc True [] cs
      else lines_acc False (c # cur) cs)"

definition file_lines :: "string \<Rightarrow> string list" where
  "file_lines content = lines_acc False [] content"

text \<open>\<^verbatim>\<open>int(x)\<close> on a float truncates towards zero; \<^verbatim>\<open>str(n)\<close> prints an integer in decimal.\<close>

definition py_int :: "real \<Rightarrow> int" where
  "py_int x = (if x \<ge> 0 then \<lfloor>x\<rfloor> else \<lceil>x\<rceil>)"

fun str_nat :: "nat \<Rightarrow> string" where
  "str_nat n =
     (if n < 10 then [char_of (48 + n)]
      else str_nat (n div 10) @ [char_of (48 + n mod 10)])"

definition str_int :: "int \<Rightarrow> string" where
  "str_int i = (if i < 0 then CHR ''-'' # str_nat (nat (- i)) else str_nat (nat i))"

section \<open>Replay\<close>

text \<open>
  One iteration of the loop of \<^verbatim>\<open>_replay_log\<close>. \<^verbatim>\<open>float(ms)\<close> is evaluated only when the key
  is found; its \<^verbatim>\<open>ValueError\<close> is not caught by the \<^verbatim>\<open>except FileNotFoundError\<close> clause.
\<close>

definition replay_line :: "pyfloat \<Rightarrow> real \<Rightarrow> kvstore \<Rightarrow> string \<Rightarrow> py_error + kvstore" where
  "replay_line pf now st raw =
     (let line = py_strip raw in
      if line = [] then Inr st
      else
        (let parts = py_split line in
         if length parts < 2 then Inr st
         else
           (let cmd = parts ! 0 in
            if cmd = ''SET'' \<and> length parts \<ge> 3 then
              Inr (set_key st (parts ! 1) (py_join (drop 2 parts)) None)
            else if cmd = ''DEL'' \<and> length parts \<ge> 2 then
              Inr (snd (delete_key st (parts ! 1)))
            else if cmd = ''EXPIRE'' \<and> length parts \<ge> 3 then
              (let key = parts ! 1; ms = parts ! 2; index = find_key_index st key in
               if index \<noteq> - 1 then
                 (case pf ms of
                    None \<Rightarrow> Inl ValueError
                  | Some m \<Rightarrow>
                      (let ttl = now + m in
                       case data st ! nat index of
                         (key', val, _) \<Rightarrow>
                           Inr (st\<lparr>data := (data st)[nat index := (key', val, Some ttl)]\<rparr>)))
               else Inr st)
            else Inr st)))"

fun replay_lines :: "pyfloat \<Rightarrow> real \<Rightarrow> kvstore \<Rightarrow> string list \<Rightarrow> py_error + kvstore" where
  "replay_lines pf now st [] = Inr st"
| "replay_lines pf now st (l # ls) =
     (case replay_line pf now st l of
        Inl e \<Rightarrow> Inl e
      | Inr st' \<Rightarrow> replay_lines pf now st' ls)"

text \<open>\<^verbatim>\<open>_replay_log\<close>: a missing file is the \<^verbatim>\<open>FileNotFoundError\<close> that is passed over.\<close>

definition replay_log :: "pyfloat \<Rightarrow> real \<Rightarrow> kvstore \<Rightarrow> py_error + kvstore" where
  "replay_log pf now st =
     (case log_file st of
        None \<Rightarrow> Inr st
      | Some content \<Rightarrow> replay_lines pf now st (file_lines content))"

text \<open>\<^verbatim>\<open>KVStore.__init__\<close>, given the content of \<^verbatim>\<open>data.db\<close>.\<close>

definition init :: "pyfloat \<Rightarrow> real \<Rightarrow> string option \<Rightarrow> py_error + kvstore" where
  "init pf now file =
     replay_log pf now \<lparr>data = [], transaction_buffer = None, log_file = file\<rparr>"

section \<open>Transactions\<close>

text \<open>
  The loop of \<^verbatim>\<open>_apply_transaction\<close>. An exception of \<^verbatim>\<open>float(ms)\<close> leaves the object as the
  intents before it made it, so the store is returned beside the error.
\<close>

fun apply_intents :: "pyfloat \<Rightarrow> real \<Rightarrow> kvstore \<Rightarrow> intent list \<Rightarrow> py_error option \<times> kvstore" where
  "apply_intents pf now st [] = (None, st)"
| "apply_intents pf now st (ISet key val ttl # rest) =
     apply_intents pf now
       (write_to_log (set_key st key val ttl) (''SET '' @ key @ '' '' @ val)) rest"
| "apply_intents pf now st (IDel key # rest) =
     (case delete_key st key of
        (True, st') \<Rightarrow> apply_intents pf now (write_to_log st' (''DEL '' @ key)) rest
      | (False, st') \<Rightarrow> apply_intents pf now st' rest)"
| "apply_intents pf now st (IExpire key ms # rest) =
     (let index = find_key_index st key in
      if index \<noteq> - 1 then
        (case pf ms of
           None \<Rightarrow> (Some ValueError, st)
         | Some m \<Rightarrow>
             (let ttl = now + m in
              case data st ! nat index of
                (key', val, _) \<Rightarrow>
                  apply_intents pf now
                    (write_to_log (st\<lparr>data := (data st)[nat index := (key', val, Some ttl)]\<rparr>)
                       (''EXPIRE '' @ key' @ '' '' @ ms)) rest))
      else apply_intents pf now st rest)"

text \<open>\<^verbatim>\<open>_apply_transaction\<close>: nothing to do for a buffer that is \<^verbatim>\<open>None\<close> or empty.\<close>

definition apply_transaction :: "pyfloat \<Rightarrow> real \<Rightarrow> kvstore \<Rightarrow> py_error option \<times> kvstore" where
  "apply_transaction pf now st =
     (case transaction_buffer st of
        None \<Rightarrow> (None, st)
      | Some buf \<Rightarrow> if buf = [] then (None, st) else apply_intents pf now st buf)"

definition begin_kv :: "kvstore \<Rightarrow> string \<times> kvstore" where
  "begin_kv st =
     (if transaction_buffer st \<noteq> None then (''ERR transaction already in progress'', st)
      else (''OK'', st\<lparr>transaction_buffer := Some []\<rparr>))"

definition commit :: "pyfloat \<Rightarrow> real \<Rightarrow> kvstore \<Rightarrow> (py_error + string) \<times> kvstore" where
  "commit pf now st =
     (if transaction_buffer st = None then (Inr ''ERR no transaction in progress'', st)
      else
        (case apply_transaction pf now st of
           (Some e, st') \<Rightarrow> (Inl e, st')
         | (None, st') \<Rightarrow> (Inr ''OK'', st'\<lparr>transaction_buffer := None\<rparr>)))"

definition abort :: "kvstore \<Rightarrow> string \<times> kvstore" where
  "abort st =
     (if transaction_buffer st = None then (''ERR no transaction in progress'', st)
      else (''OK'', st\<lparr>transaction_buffer := None\<rparr>))"

section \<open>Commands\<close>

text \<open>
  Each method returns its reply and the store it leaves. The loops over
  \<^verbatim>\<open>reversed(self.transaction_buffer)\<close> are functions on the reversed buffer.
\<close>

text \<open>\<^verbatim>\<open>set(key, value)\<close>.\<close>

definition set_kv :: "kvstore \<Rightarrow> string \<Rightarrow> string \<Rightarrow> string \<times> kvstore" where
  "set_kv st key val =
     (case transaction_buffer st of
        Some buf \<Rightarrow>
          (let index = find_key_index st key;
               current_ttl = (if index \<noteq> - 1 then snd (snd (data st ! nat index)) else None)
           in (''OK'', st\<lparr>transaction_buffer := Some (buf @ [ISet key val current_ttl])\<rparr>))
      | None \<Rightarrow>
          (''OK'', write_to_log (set_key st key val None) (''SET '' @ key @ '' '' @ val)))"

text \<open>The loop of \<^verbatim>\<open>get\<close> and \<^verbatim>\<open>exists\<close>: the latest SET or DEL on the key.\<close>

fun get_scan :: "string \<Rightarrow> intent list \<Rightarrow> string option" where
  "get_scan key [] = None"
| "get_scan key (ISet k v t # rest) = (if k = key then Some v else get_scan key rest)"
| "get_scan key (IDel k # rest) = (if k = key then Some ''nil'' else get_scan key rest)"
| "get_scan key (IExpire k ms # rest) = get_scan key rest"

definition get :: "real \<Rightarrow> kvstore \<Rightarrow> string \<Rightarrow> string \<times> kvstore" where
  "get now st key =
     (case (case transaction_buffer st of
              Some buf \<Rightarrow> get_scan key (rev buf)
            | None \<Rightarrow> None) of
        Some reply \<Rightarrow> (reply, st)
      | None \<Rightarrow>
          (case get_key_index now st key True of
             (index, st') \<Rightarrow>
               if index = - 1 then (''nil'', st')
               else (fst (snd (data st' ! nat index)), st')))"

text \<open>\<^verbatim>\<open>delete(key)\<close>: the lookup is made with \<^verbatim>\<open>check_expired=False\<close>.\<close>

definition delete :: "real \<Rightarrow> kvstore \<Rightarrow> string \<Rightarrow> string \<times> kvstore" where
  "delete now st key =
     (case transaction_buffer st of
        Some buf \<Rightarrow> (''1'', st\<lparr>transaction_buffer := Some (buf @ [IDel key])\<rparr>)
      | None \<Rightarrow>
          (case get_key_index now st key False of
             (index, st') \<Rightarrow>
               if index \<noteq> - 1 then
                 (''1'', write_to_log (st'\<lparr>data := pop_at (nat index) (data st')\<rparr>) (''DEL '' @ key))
               else (''0'', st')))"

fun exists_scan :: "string \<Rightarrow> intent list \<Rightarrow> string option" where
  "exists_scan key [] = None"
| "exists_scan key (ISet k v t # rest) = (if k = key then Some ''1'' else exists_scan key rest)"
| "exists_scan key (IDel k # rest) = (if k = key then Some ''0'' else exists_scan key rest)"
| "exists_scan key (IExpire k ms # rest) = exists_scan key rest"

definition exists_kv :: "real \<Rightarrow> kvstore \<Rightarrow> string \<Rightarrow> string \<times> kvstore" where
  "exists_kv now st key =
     (case (case transaction_buffer st of
              Some buf \<Rightarrow> exists_scan key (rev buf)
            | None \<Rightarrow> None) of
        Some reply \<Rightarrow> (reply, st)
      | None \<Rightarrow>
          (case get_key_index now st key True of
             (index, st') \<Rightarrow> (if index \<noteq> - 1 then ''1'' else ''0'', st')))"

text \<open>
  The two loops of \<^verbatim>\<open>mset\<close> over \<^verbatim>\<open>range(0, len(args), 2)\<close>, for an argument list of even
  length: inside a transaction and outside.
\<close>

fun mset_buffer :: "kvstore \<Rightarrow> string list \<Rightarrow> kvstore" where
  "mset_buffer st (key # val # rest) =
     (let index = find_key_index st key;
          current_ttl = (if index \<noteq> - 1 then snd (snd (data st ! nat index)) else None)
      in mset_buffer
           (st\<lparr>transaction_buffer :=
                 Some (the (transaction_buffer st) @ [ISet key val current_ttl])\<rparr>) rest)"
| "mset_buffer st rest = st"

fun mset_apply :: "kvstore \<Rightarrow> string list \<Rightarrow> kvstore" where
  "mset_apply st (key # val # rest) =
     mset_apply (write_to_log (set_key st key val None) (''SET '' @ key @ '' '' @ val)) rest"
| "mset_apply st rest = st"

definition mset_kv :: "kvstore \<Rightarrow> string list \<Rightarrow> string \<times> kvstore" where
  "mset_kv st args =
     (if length args mod 2 \<noteq> 0 then (''ERR wrong number of arguments for MSET'', st)
      else if transaction_buffer st \<noteq> None then (''OK'', mset_buffer st args)
      else (''OK'', mset_apply st args))"

fun mget :: "real \<Rightarrow> kvstore \<Rightarrow> string list \<Rightarrow> string list \<times> kvstore" where
  "mget now st [] = ([], st)"
| "mget now st (key # keys) =
     (case get now st key of
        (r, st') \<Rightarrow> (case mget now st' keys of (rs, st'') \<Rightarrow> (r # rs, st'')))"

text \<open>
  \<^verbatim>\<open>expire(key, milliseconds)\<close>. Inside a transaction the loop runs over the buffer from
  its start and looks for a SET on the key only.
\<close>

fun is_set_on :: "string \<Rightarrow> intent \<Rightarrow> bool" where
  "is_set_on key (ISet k v t) = (k = key)"
| "is_set_on key (IDel k) = False"
| "is_set_on key (IExpire k ms) = False"

definition expire :: "pyfloat \<Rightarrow> real \<Rightarrow> kvstore \<Rightarrow> string \<Rightarrow> string \<Rightarrow> string \<times> kvstore" where
  "expire pf now st key milliseconds =
     (case pf milliseconds of
        None \<Rightarrow> (''ERR invalid TTL value'', st)
      | Some ms \<Rightarrow>
          if ms \<le> 0 then
            (case transaction_buffer st of
               Some buf \<Rightarrow> (''1'', st\<lparr>transaction_buffer := Some (buf @ [IDel key])\<rparr>)
             | None \<Rightarrow>
                 (let index = find_key_index st key in
                  if index \<noteq> - 1 then
                    (''1'', write_to_log (st\<lparr>data := pop_at (nat index) (data st)\<rparr>)
                              (''DEL '' @ key))
                  else (''1'', st)))
          else
            (let ttl = now + ms in
             case transaction_buffer st of
               Some buf \<Rightarrow>
                 (let exists = list_ex (is_set_on key) buf in
                  if \<not> exists then
                    (let index = find_key_index st key in
                     if index = - 1 then (''0'', st)
                     else
                       (case is_expired now st index of
                          (True, st') \<Rightarrow> (''0'', st')
                        | (False, st') \<Rightarrow>
                            (''1'', st'\<lparr>transaction_buffer :=
                                          Some (buf @ [IExpire key milliseconds])\<rparr>)))
                  else
                    (''1'', st\<lparr>transaction_buffer := Some (buf @ [IExpire key milliseconds])\<rparr>))
             | None \<Rightarrow>
                 (case get_key_index now st key False of
                    (index, st') \<Rightarrow>
                      if index = - 1 then (''0'', st')
                      else
                        (case data st' ! nat index of
                           (key_name, val, _) \<Rightarrow>
                             (''1'',
                              write_to_log
                                (st'\<lparr>data := (data st')[nat index := (key_name, val, Some ttl)]\<rparr>)
                                (''EXPIRE '' @ key @ '' '' @ milliseconds))))))"

text \<open>
  \<^verbatim>\<open>ttl(key)\<close>. Inside a transaction the first intent on the key, of any kind, in the
  reversed buffer decides. For an EXPIRE the source evaluates
  \<^verbatim>\<open>ms - (time.time() * 1000 - (time.time() * 1000 - ms))\<close>, here with the two clock
  readings \<open>t1\<close> and \<open>t2\<close> named.
\<close>

fun intent_key :: "intent \<Rightarrow> string" where
  "intent_key (ISet k v t) = k"
| "intent_key (IDel k) = k"
| "intent_key (IExpire k ms) = k"

definition txn_remaining :: "real \<Rightarrow> real \<Rightarrow> real \<Rightarrow> real" where
  "txn_remaining ms t1 t2 = ms - (t1 - (t2 - ms))"

definition ttl :: "pyfloat \<Rightarrow> real \<Rightarrow> kvstore \<Rightarrow> string \<Rightarrow> (py_error + string) \<times> kvstore" where
  "ttl pf now st key =
     (case (case transaction_buffer st of
              Some buf \<Rightarrow> find (\<lambda>i. intent_key i = key) (rev buf)
            | None \<Rightarrow> None) of
        Some (ISet k v t) \<Rightarrow> (Inr ''-1'', st)
      | Some (IDel k) \<Rightarrow> (Inr ''-2'', st)
      | Some (IExpire k arg) \<Rightarrow>
          (case pf arg of
             None \<Rightarrow> (Inl ValueError, st)
           | Some ms \<Rightarrow>
               (let remaining = txn_remaining ms now now
                in (Inr (str_int (py_int (max 0 remaining))), st)))
      | None \<Rightarrow>
          (case get_key_index now st key False of
             (index, st0) \<Rightarrow>
               if index = - 1 then (Inr ''-2'', st0)
               else
                 (case is_expired now st0 index of
                    (True, st') \<Rightarrow> (Inr ''-2'', st')
                  | (False, st') \<Rightarrow>
                      (case data st' ! nat index of
                         (_, _, key_ttl) \<Rightarrow>
                           (case key_ttl of
                              None \<Rightarrow> (Inr ''-1'', st')
                            | Some t \<Rightarrow>
                                (let remaining = t - now in
                                 if remaining \<le> 0 then
                                   (Inr ''-2'', st'\<lparr>data := pop_at (nat index) (data st')\<rparr>)
                                 else (Inr (str_int (py_int remaining)), st')))))))"

text \<open>
  \<^verbatim>\<open>persist(key)\<close>. The first loop sets \<^verbatim>\<open>has_ttl\<close> from the latest SET or EXPIRE on the
  key, the second finds \<^verbatim>\<open>current_value\<close> in the latest SET; neither looks at a DEL.
\<close>

fun persist_has_ttl :: "string \<Rightarrow> intent list \<Rightarrow> bool" where
  "persist_has_ttl key [] = False"
| "persist_has_ttl key (ISet k v t # rest) =
     (if k = key then t \<noteq> None else persist_has_ttl key rest)"
| "persist_has_ttl key (IExpire k ms # rest) =
     (if k = key then True else persist_has_ttl key rest)"
| "persist_has_ttl key (IDel k # rest) = persist_has_ttl key rest"

fun persist_value :: "string \<Rightarrow> intent list \<Rightarrow> string option" where
  "persist_value key [] = None"
| "persist_value key (ISet k v t # rest) =
     (if k = key then Some v else persist_value key rest)"
| "persist_value key (IDel k # rest) = persist_value key rest"
| "persist_value key (IExpire k ms # rest) = persist_value key rest"

text \<open>The second half of the transaction branch, from \<^verbatim>\<open>current_value = None\<close> on.\<close>

definition persist_buffer :: "real \<Rightarrow> kvstore \<Rightarrow> intent list \<Rightarrow> string \<Rightarrow> string \<times> kvstore" where
  "persist_buffer now st buf key =
     (case (case persist_value key (rev buf) of
              Some v \<Rightarrow> (Some v, st)
            | None \<Rightarrow>
                (let index = find_key_index st key in
                 if index \<noteq> - 1 then
                   (case is_expired now st index of
                      (True, st') \<Rightarrow> (None, st')
                    | (False, st') \<Rightarrow> (Some (fst (snd (data st' ! nat index))), st'))
                 else (None, st))) of
        (Some current_value, st') \<Rightarrow>
          (''1'', st'\<lparr>transaction_buffer := Some (buf @ [ISet key current_value None])\<rparr>)
      | (None, st') \<Rightarrow> (''0'', st'))"

definition persist :: "real \<Rightarrow> kvstore \<Rightarrow> string \<Rightarrow> string \<times> kvstore" where
  "persist now st key =
     (case transaction_buffer st of
        Some buf \<Rightarrow>
          (let has_ttl = persist_has_ttl key (rev buf) in
           if \<not> has_ttl then
             (let index = find_key_index st key in
              if index = - 1 then (''0'', st)
              else
                (case is_expired now st index of
                   (True, st') \<Rightarrow> (''0'', st')
                 | (False, st') \<Rightarrow>
                     if snd (snd (data st' ! nat index)) = None then (''0'', st')
                     else persist_buffer now st' buf key))
           else persist_buffer now st buf key)
      | None \<Rightarrow>
          (case get_key_index now st key True of
             (index, st') \<Rightarrow>
               if index = - 1 then (''0'', st')
               else
                 (case data st' ! nat index of
                    (key_name, val, t) \<Rightarrow>
                      if t = None then (''0'', st')
                      else
                        (''1'',
                         write_to_log
                           (st'\<lparr>data := (data st')[nat index := (key_name, val, None)]\<rparr>)
                           (''SET '' @ key_name @ '' '' @ val)))))"

text \<open>
  \<^verbatim>\<open>range(start, end)\<close>. \<^verbatim>\<open>key_in_txn\<close> starts as \<^verbatim>\<open>False\<close> and the loop over the reversed
  buffer stops at the first DEL or SET on the key; an EXPIRE on the key is passed over.
  The method does not assign to \<^verbatim>\<open>self.data\<close>.
\<close>

fun key_in_txn :: "string \<Rightarrow> intent list \<Rightarrow> bool" where
  "key_in_txn key [] = False"
| "key_in_txn key (IDel k # rest) = (if k = key then False else key_in_txn key rest)"
| "key_in_txn key (ISet k v t # rest) = (if k = key then True else key_in_txn key rest)"
| "key_in_txn key (IExpire k ms # rest) = key_in_txn key rest"

definition range_keep :: "real \<Rightarrow> kvstore \<Rightarrow> string \<Rightarrow> string \<Rightarrow> entry \<Rightarrow> bool" where
  "range_keep now st start end_key e =
     (case e of
        (key, val, t) \<Rightarrow>
          if start \<noteq> [] \<and> key < start then False
          else if end_key \<noteq> [] \<and> key > end_key then False
          else if (case t of Some d \<Rightarrow> now > d | None \<Rightarrow> False) then False
          else
            (case transaction_buffer st of
               Some buf \<Rightarrow> key_in_txn key (rev buf)
             | None \<Rightarrow> True))"

definition range_kv :: "real \<Rightarrow> kvstore \<Rightarrow> string \<Rightarrow> string \<Rightarrow> string list \<times> kvstore" where
  "range_kv now st start end_key =
     (map fst (filter (range_keep now st start end_key) (data st)) @ [''END''], st)"

section \<open>Running the model\<close>

text \<open>
  \<^verbatim>\<open>float\<close> on plain decimal literals: optional surrounding whitespace, an optional sign,
  digits with an optional fractional part. It stands for the builtin in the concrete
  runs below, whose arguments are such literals or are rejected by \<^verbatim>\<open>float\<close> too.
\<close>

definition is_digit :: "char \<Rightarrow> bool" where
  "is_digit c = (let n = (of_char c :: nat) in 48 \<le> n \<and> n \<le> 57)"

definition digits_val :: "string \<Rightarrow> nat" where
  "digits_val ds = foldl (\<lambda>acc c. 10 * acc + (of_char c - 48)) 0 ds"

definition float_decimal :: pyfloat where
  "float_decimal raw =
     (let s = py_strip raw;
          neg = (s \<noteq> [] \<and> hd s = CHR ''-'');
          body = (if s \<noteq> [] \<and> (hd s = CHR ''-'' \<or> hd s = CHR ''+'') then tl s else s);
          ip = takeWhile is_digit body;
          rest = dropWhile is_digit body;
          fp = (if rest = [] then Some []
                else if hd rest = CHR ''.'' then Some (tl rest) else None)
      in case fp of
           None \<Rightarrow> None
         | Some fd \<Rightarrow>
             if list_all is_digit fd \<and> \<not> (ip = [] \<and> fd = []) then
               Some ((if neg then - 1 else 1) *
                     (real (digits_val ip) + real (digits_val fd) / 10 ^ length fd))
             else None)"

text \<open>
  The writes the dispatcher of \<^verbatim>\<open>main\<close> passes to the store, and a run of them, each at
  its own clock reading.
\<close>

datatype write_cmd =
    WSet string string
  | WDel string
  | WExpire string string
  | WPersist string
  | WMSet "string list"

fun exec_write :: "pyfloat \<Rightarrow> real \<Rightarrow> kvstore \<Rightarrow> write_cmd \<Rightarrow> string \<times> kvstore" where
  "exec_write pf now st (WSet key val) = set_kv st key val"
| "exec_write pf now st (WDel key) = delete now st key"
| "exec_write pf now st (WExpire key ms) = expire pf now st key ms"
| "exec_write pf now st (WPersist key) = persist now st key"
| "exec_write pf now st (WMSet args) = mset_kv st args"

fun run_writes :: "pyfloat \<Rightarrow> kvstore \<Rightarrow> (real \<times> write_cmd) list \<Rightarrow> kvstore" where
  "run_writes pf st [] = st"
| "run_writes pf st ((now, c) # cs) = run_writes pf (snd (exec_write pf now st c)) cs"

section \<open>States and predicates of the properties\<close>

text \<open>
  The invariant of \<^verbatim>\<open>self.data\<close> that \<^verbatim>\<open>_find_key_index\<close> relies on: the keys are strictly
  increasing.
\<close>

definition sorted_keys :: "kvstore \<Rightarrow> bool" where
  "sorted_keys st = sorted_wrt (<) (map fst (data st))"

text \<open>
  The test of \<^verbatim>\<open>_is_expired\<close> on a record: it has a deadline and the clock reading is
  strictly greater.
\<close>

definition deadline_passed :: "real \<Rightarrow> entry \<Rightarrow> bool" where
  "deadline_passed now e = (case snd (snd e) of Some d \<Rightarrow> now > d | None \<Rightarrow> False)"

text \<open>A record that none of the clock readings \<open>ts\<close> finds expired.\<close>

definition kept_at :: "real list \<Rightarrow> entry \<Rightarrow> bool" where
  "kept_at ts e = (\<not> list_ex (\<lambda>t. deadline_passed t e) ts)"

text \<open>
  What one call may do to the keyspace through \<^verbatim>\<open>_is_expired\<close>: nothing, or pop one record
  whose deadline has passed.
\<close>

definition evicted_at :: "real \<Rightarrow> entry list \<Rightarrow> entry list \<Rightarrow> bool" where
  "evicted_at now xs ys =
     (ys = xs \<or> (\<exists>i < length xs. deadline_passed now (xs ! i) \<and> ys = pop_at i xs))"

text \<open>The store \<^verbatim>\<open>KVStore()\<close> builds when there is no log file.\<close>

definition empty_store :: kvstore where
  "empty_store = \<lparr>data = [], transaction_buffer = None, log_file = None\<rparr>"

text \<open>
  The store after \<^verbatim>\<open>SET k v\<close> and \<^verbatim>\<open>EXPIRE k 5\<close> at clock reading 0: at any later reading
  above 5 the record of \<^verbatim>\<open>k\<close> is stored with its deadline passed.
\<close>

definition expired_store :: kvstore where
  "expired_store =
     \<lparr>data = [(''k'', ''v'', Some 5)], transaction_buffer = None,
      log_file = Some (''SET k v'' @ [CHR 0x0A] @ ''EXPIRE k 5'' @ [CHR 0x0A])\<rparr>"

text \<open>The same with a record \<^verbatim>\<open>a\<close> that has no deadline before it.\<close>

definition mixed_store :: kvstore where
  "mixed_store =
     \<lparr>data = [(''a'', ''1'', None), (''k'', ''v'', Some 5)], transaction_buffer = None,
      log_file = Some (''SET a 1'' @ [CHR 0x0A] @ ''SET k v'' @ [CHR 0x0A] @ ''EXPIRE k 5'' @ [CHR 0x0A])\<rparr>"

text \<open>
  The store of scenario S6 before its \<^verbatim>\<open>RANGE a z\<close>: \<^verbatim>\<open>SET a 1\<close>, \<^verbatim>\<open>SET c 3\<close>, \<^verbatim>\<open>BEGIN\<close>,
  \<^verbatim>\<open>SET b 2\<close>, \<^verbatim>\<open>DEL a\<close> from the empty store.
\<close>

definition s6_store :: kvstore where
  "s6_store =
     (let st = snd (set_kv empty_store ''a'' ''1'');
          st = snd (set_kv st ''c'' ''3'');
          st = snd (begin_kv st);
          st = snd (set_kv st ''b'' ''2'');
          st = snd (delete 0 st ''a'')
      in st)"

text \<open>\<^verbatim>\<open>BEGIN\<close>, \<^verbatim>\<open>SET k v\<close>, \<^verbatim>\<open>EXPIRE k 60\<close> at clock reading 7, from the empty store.\<close>

definition buffered_expire_store :: kvstore where
  "buffered_expire_store =
     (let st = snd (begin_kv empty_store);
          st = snd (set_kv st ''k'' ''v'');
          st = snd (expire float_decimal 7 st ''k'' ''60'')
      in st)"

text \<open>\<^verbatim>\<open>BEGIN\<close>, \<^verbatim>\<open>SET k v\<close>, \<^verbatim>\<open>DEL k\<close> from the empty store.\<close>

definition set_del_store :: kvstore where
  "set_del_store =
     (let st = snd (begin_kv empty_store);
          st = snd (set_kv st ''k'' ''v'');
          st = snd (delete 0 st ''k'')
      in st)"

text \<open>\<^verbatim>\<open>SET k v\<close>, \<^verbatim>\<open>EXPIRE k 60\<close> at clock reading 0, from the empty store.\<close>

definition armed_store :: kvstore where
  "armed_store =
     (let st = snd (set_kv empty_store ''k'' ''v'');
          st = snd (expire float_decimal 0 st ''k'' ''60'')
      in st)"

section \<open>Binary search\<close>

declare find_loop.simps [simp del] bisect_loop.simps [simp del] str_nat.simps [simp del]

text \<open>Whatever the list, an index returned by the loop is in range and holds the key.\<close>

lemma find_loop_sound:
  "0 \<le> lo \<Longrightarrow> hi < int (length keys) \<Longrightarrow> find_loop keys key lo hi \<noteq> - 1 \<Longrightarrow>
     lo \<le> find_loop keys key lo hi \<and> find_loop keys key lo hi \<le> hi \<and>
     keys ! nat (find_loop keys key lo hi) = key"
proof (induction keys key lo hi rule: find_loop.induct)
  case (1 keys key lo hi)
  show ?case
  proof (cases "lo \<le> hi")
    case False
    with "1.prems" show ?thesis by (simp add: find_loop.simps [of keys key lo hi])
  next
    case True
    let ?mid = "(lo + hi) div 2"
    have mid: "lo \<le> ?mid" "?mid \<le> hi" using True by auto
    show ?thesis
    proof (cases "keys ! nat ?mid = key")
      case eq: True
      then have "find_loop keys key lo hi = ?mid"
        using True by (simp add: find_loop.simps [of keys key lo hi])
      with eq mid show ?thesis by simp
    next
      case ne: False
      show ?thesis
      proof (cases "keys ! nat ?mid < key")
        case lt: True
        have eq: "find_loop keys key lo hi = find_loop keys key (?mid + 1) hi"
          using True ne lt by (simp add: find_loop.simps [of keys key lo hi] Let_def)
        have "?mid + 1 \<le> find_loop keys key (?mid + 1) hi \<and>
              find_loop keys key (?mid + 1) hi \<le> hi \<and>
              keys ! nat (find_loop keys key (?mid + 1) hi) = key"
          using "1.IH"(1) [OF True refl ne lt] "1.prems" mid eq by simp
        with eq mid show ?thesis by simp
      next
        case ge: False
        have eq: "find_loop keys key lo hi = find_loop keys key lo (?mid - 1)"
          using True ne ge by (simp add: find_loop.simps [of keys key lo hi] Let_def)
        have "lo \<le> find_loop keys key lo (?mid - 1) \<and>
              find_loop keys key lo (?mid - 1) \<le> ?mid - 1 \<and>
              keys ! nat (find_loop keys key lo (?mid - 1)) = key"
          using "1.IH"(2) [OF True refl ne ge] "1.prems" mid eq by simp
        with eq mid show ?thesis by simp
      qed
    qed
  qed
qed

text \<open>On strictly increasing keys the loop finds the index of a key that is there.\<close>

lemma find_loop_complete:
  "sorted_wrt (<) keys \<Longrightarrow> 0 \<le> lo \<Longrightarrow> hi < int (length keys) \<Longrightarrow>
   i < length keys \<Longrightarrow> keys ! i = key \<Longrightarrow> lo \<le> int i \<Longrightarrow> int i \<le> hi \<Longrightarrow>
   find_loop keys key lo hi = int i"
proof (induction keys key lo hi rule: find_loop.induct)
  case (1 keys key lo hi)
  let ?mid = "(lo + hi) div 2"
  have lohi: "lo \<le> hi" using "1.prems" by simp
  have mid: "lo \<le> ?mid" "?mid \<le> hi" using lohi by auto
  have midlen: "nat ?mid < length keys" using mid "1.prems" by simp
  show ?case
  proof (cases "keys ! nat ?mid = key")
    case eq: True
    have "nat ?mid = i"
    proof (rule ccontr)
      assume "nat ?mid \<noteq> i"
      then consider "nat ?mid < i" | "i < nat ?mid" by linarith
      then show False
      proof cases
        case 1
        then have "keys ! nat ?mid < keys ! i"
          using \<open>sorted_wrt (<) keys\<close> \<open>i < length keys\<close> by (simp add: sorted_wrt_nth_less)
        with eq \<open>keys ! i = key\<close> show False by simp
      next
        case 2
        then have "keys ! i < keys ! nat ?mid"
          using \<open>sorted_wrt (<) keys\<close> midlen by (simp add: sorted_wrt_nth_less)
        with eq \<open>keys ! i = key\<close> show False by simp
      qed
    qed
    moreover have "find_loop keys key lo hi = ?mid"
      using lohi eq by (simp add: find_loop.simps [of keys key lo hi])
    ultimately show ?thesis using mid "1.prems" by simp
  next
    case ne: False
    show ?thesis
    proof (cases "keys ! nat ?mid < key")
      case lt: True
      have eq: "find_loop keys key lo hi = find_loop keys key (?mid + 1) hi"
        using lohi ne lt by (simp add: find_loop.simps [of keys key lo hi] Let_def)
      have "nat ?mid < i"
      proof (rule ccontr)
        assume "\<not> nat ?mid < i"
        then have "i \<le> nat ?mid" by simp
        then have "keys ! i \<le> keys ! nat ?mid"
          using \<open>sorted_wrt (<) keys\<close> midlen ne \<open>keys ! i = key\<close>
          by (cases "i = nat ?mid") (auto simp: sorted_wrt_nth_less less_imp_le)
        with lt \<open>keys ! i = key\<close> show False by simp
      qed
      then have "?mid + 1 \<le> int i" using mid "1.prems" by linarith
      then have "find_loop keys key (?mid + 1) hi = int i"
        using "1.IH"(1) [OF lohi refl ne lt] "1.prems" mid by simp
      with eq show ?thesis by simp
    next
      case ge: False
      have eq: "find_loop keys key lo hi = find_loop keys key lo (?mid - 1)"
        using lohi ne ge by (simp add: find_loop.simps [of keys key lo hi] Let_def)
      have "i < nat ?mid"
      proof (rule ccontr)
        assume "\<not> i < nat ?mid"
        then have "nat ?mid \<le> i" by simp
        then have "keys ! nat ?mid \<le> keys ! i"
          using \<open>sorted_wrt (<) keys\<close> \<open>i < length keys\<close>
          by (cases "i = nat ?mid") (auto simp: sorted_wrt_nth_less less_imp_le)
        with ge ne \<open>keys ! i = key\<close> show False by simp
      qed
      then have "int i \<le> ?mid - 1" using mid "1.prems" by linarith
      then have "find_loop keys key lo (?mid - 1) = int i"
        using "1.IH"(2) [OF lohi refl ne ge] "1.prems" mid by simp
      with eq show ?thesis by simp
    qed
  qed
qed

lemma find_key_index_present:
  assumes "sorted_wrt (<) (map fst (data st))" "i < length (data st)" "fst (data st ! i) = k"
  shows "find_key_index st k = int i"
  unfolding find_key_index_def Let_def
  using assms by (intro find_loop_complete) auto

lemma find_key_index_sound:
  assumes "find_key_index st k \<noteq> - 1"
  shows "0 \<le> find_key_index st k \<and> nat (find_key_index st k) < length (data st) \<and>
         fst (data st ! nat (find_key_index st k)) = k"
proof -
  let ?keys = "map fst (data st)"
  let ?r = "find_loop ?keys k 0 (int (length ?keys) - 1)"
  have r: "find_key_index st k = ?r" by (simp add: find_key_index_def Let_def)
  have "0 \<le> ?r \<and> ?r \<le> int (length ?keys) - 1 \<and> ?keys ! nat ?r = k"
    using find_loop_sound [of 0 "int (length ?keys) - 1" ?keys k] assms r by simp
  then show ?thesis using r by (auto simp: nth_map)
qed

lemma find_key_index_absent:
  "k \<notin> fst ` set (data st) \<Longrightarrow> find_key_index st k = - 1"
  using find_key_index_sound [of st k] by (metis nth_mem image_eqI)

section \<open>Lazy eviction inside a transaction\<close>

text \<open>
  A buffered write leaves the log alone and keeps the transaction open; the keyspace
  changes only where \<^verbatim>\<open>_is_expired\<close> pops a record whose deadline has passed.
\<close>

lemma is_expired_frame:
  assumes "is_expired now st idx = (b, st')"
  shows "log_file st' = log_file st \<and> transaction_buffer st' = transaction_buffer st \<and>
         evicted_at now (data st) (data st')"
proof (cases "idx < 0 \<or> idx \<ge> int (length (data st))")
  case True
  with assms show ?thesis by (simp add: is_expired_def evicted_at_def)
next
  case False
  then have i: "nat idx < length (data st)" by (simp add: nat_less_iff)
  obtain k v t where e: "data st ! nat idx = (k, v, t)" by (cases "data st ! nat idx") auto
  show ?thesis
  proof (cases "\<exists>d. t = Some d \<and> now > d")
    case True
    then obtain d where d: "t = Some d" "now > d" by blast
    with assms False e have "st' = st\<lparr>data := pop_at (nat idx) (data st)\<rparr>"
      by (simp add: is_expired_def)
    moreover have "deadline_passed now (data st ! nat idx)"
      using e d by (simp add: deadline_passed_def)
    ultimately show ?thesis using i by (auto simp: evicted_at_def)
  next
    case no: False
    with assms False e have "st' = st"
      by (cases t) (auto simp: is_expired_def)
    then show ?thesis by (simp add: evicted_at_def)
  qed
qed

lemma mset_buffer_frame:
  "transaction_buffer st \<noteq> None \<Longrightarrow>
   data (mset_buffer st args) = data st \<and> log_file (mset_buffer st args) = log_file st \<and>
   transaction_buffer (mset_buffer st args) \<noteq> None"
  by (induction st args rule: mset_buffer.induct) (simp_all add: Let_def)

lemma persist_buffer_frame:
  assumes "persist_buffer now st buf key = (r, st')"
  shows "log_file st' = log_file st \<and>
         (transaction_buffer st \<noteq> None \<longrightarrow> transaction_buffer st' \<noteq> None) \<and>
         evicted_at now (data st) (data st')"
proof (cases "persist_value key (rev buf)")
  case (Some v)
  with assms show ?thesis by (auto simp: persist_buffer_def evicted_at_def)
next
  case None
  show ?thesis
  proof (cases "find_key_index st key \<noteq> - 1")
    case False
    with None assms show ?thesis by (auto simp: persist_buffer_def evicted_at_def)
  next
    case True
    obtain b st1 where ie: "is_expired now st (find_key_index st key) = (b, st1)"
      by (cases "is_expired now st (find_key_index st key)") auto
    note fr = is_expired_frame [OF ie]
    show ?thesis
      using None True ie fr assms by (cases b) (auto simp: persist_buffer_def)
  qed
qed

lemma exec_write_frame:
  assumes "transaction_buffer st \<noteq> None" and "exec_write pf now st c = (r, st')"
  shows "log_file st' = log_file st \<and> transaction_buffer st' \<noteq> None \<and>
         evicted_at now (data st) (data st')"
proof -
  obtain buf where buf: "transaction_buffer st = Some buf" using assms(1) by auto
  show ?thesis
  proof (cases c)
    case (WSet key val)
    with assms(2) buf show ?thesis by (auto simp: set_kv_def Let_def evicted_at_def)
  next
    case (WDel key)
    with assms(2) buf show ?thesis by (auto simp: delete_def evicted_at_def)
  next
    case (WMSet args)
    with assms mset_buffer_frame [OF assms(1), of args] show ?thesis
      by (auto simp: mset_kv_def evicted_at_def split: if_splits)
  next
    case (WPersist key)
    show ?thesis
    proof (cases "persist_has_ttl key (rev buf)")
      case True
      with WPersist assms(2) buf have "persist_buffer now st buf key = (r, st')"
        by (simp add: persist_def)
      from persist_buffer_frame [OF this] assms(1) show ?thesis by simp
    next
      case nt: False
      show ?thesis
      proof (cases "find_key_index st key = - 1")
        case True
        with nt WPersist assms(2) buf show ?thesis by (auto simp: persist_def evicted_at_def)
      next
        case False
        obtain b st1 where ie: "is_expired now st (find_key_index st key) = (b, st1)"
          by (cases "is_expired now st (find_key_index st key)") auto
        note fr = is_expired_frame [OF ie]
        show ?thesis
        proof (cases "b \<or> snd (snd (data st1 ! nat (find_key_index st key))) = None")
          case True
          with nt False WPersist assms buf ie fr show ?thesis
            by (cases b) (auto simp: persist_def)
        next
          case nb: False
          then have st1: "st1 = st" using ie
            by (auto simp: is_expired_def split: if_splits prod.splits option.splits)
          from nb nt False WPersist assms(2) buf ie
          have "persist_buffer now st1 buf key = (r, st')"
            by (auto simp: persist_def)
          from persist_buffer_frame [OF this] assms(1) st1 show ?thesis by simp
        qed
      qed
    qed
  next
    case (WExpire key ms)
    show ?thesis
    proof (cases "pf ms")
      case None
      with WExpire assms show ?thesis by (auto simp: expire_def evicted_at_def)
    next
      case (Some m)
      show ?thesis
      proof (cases "m \<le> 0")
        case True
        with Some WExpire assms(2) buf show ?thesis by (auto simp: expire_def evicted_at_def)
      next
        case pos: False
        show ?thesis
        proof (cases "list_ex (is_set_on key) buf \<or> find_key_index st key = - 1")
          case True
          with pos Some WExpire assms(2) buf show ?thesis
            by (auto simp: expire_def evicted_at_def Let_def split: if_splits)
        next
          case False
          obtain b st1 where ie: "is_expired now st (find_key_index st key) = (b, st1)"
            by (cases "is_expired now st (find_key_index st key)") auto
          note fr = is_expired_frame [OF ie]
          from False pos Some WExpire assms buf ie fr show ?thesis
            by (cases b) (auto simp: expire_def Let_def split: if_splits)
        qed
      qed
    qed
  qed
qed

lemma subseq_pop_at: "i < length xs \<Longrightarrow> subseq (pop_at i xs) xs"
proof -
  assume i: "i < length xs"
  have "subseq (drop (Suc i) xs) (xs ! i # drop (Suc i) xs)"
    by (rule list_emb_Cons) (rule list_emb_refl, simp)
  then have "subseq (drop (Suc i) xs) (drop i xs)" using i by (simp add: Cons_nth_drop_Suc)
  then have "subseq (take i xs @ drop (Suc i) xs) (take i xs @ drop i xs)"
    by (intro list_emb_append_mono) simp_all
  then show ?thesis by (simp add: pop_at_def)
qed

lemma evicted_at_subseq: "evicted_at now xs ys \<Longrightarrow> subseq ys xs"
  by (auto simp: evicted_at_def subseq_pop_at)

lemma evicted_at_filter:
  assumes "evicted_at now xs ys" and "now \<in> set ts"
  shows "filter (kept_at ts) ys = filter (kept_at ts) xs"
proof (cases "ys = xs")
  case True
  then show ?thesis by simp
next
  case False
  with assms(1) obtain i where i: "i < length xs" "deadline_passed now (xs ! i)" "ys = pop_at i xs"
    by (auto simp: evicted_at_def)
  have "\<not> kept_at ts (xs ! i)" using i(2) assms(2) by (auto simp: kept_at_def list_ex_iff)
  moreover have "xs = take i xs @ xs ! i # drop (Suc i) xs" using i(1) by (rule id_take_nth_drop)
  ultimately have "filter (kept_at ts) xs = filter (kept_at ts) (take i xs) @ filter (kept_at ts) (drop (Suc i) xs)"
    by (metis filter.simps(2) filter_append)
  then show ?thesis using i(3) by (simp add: pop_at_def)
qed

lemma run_writes_frame:
  "transaction_buffer st \<noteq> None \<Longrightarrow> fst ` set ws \<subseteq> set ts \<Longrightarrow>
   log_file (run_writes pf st ws) = log_file st \<and>
   transaction_buffer (run_writes pf st ws) \<noteq> None \<and>
   subseq (data (run_writes pf st ws)) (data st) \<and>
   filter (kept_at ts) (data (run_writes pf st ws)) = filter (kept_at ts) (data st)"
proof (induction ws arbitrary: st)
  case Nil
  then show ?case by simp
next
  case (Cons w ws)
  obtain now c where w: "w = (now, c)" by (cases w) auto
  obtain r st1 where ex: "exec_write pf now st c = (r, st1)" by (cases "exec_write pf now st c") auto
  from exec_write_frame [OF Cons.prems(1) ex]
  have fr: "log_file st1 = log_file st" "transaction_buffer st1 \<noteq> None"
    "evicted_at now (data st) (data st1)" by simp_all
  have now: "now \<in> set ts" using Cons.prems(2) w by auto
  have rest: "fst ` set ws \<subseteq> set ts" using Cons.prems(2) by auto
  note ih = Cons.IH [OF fr(2) rest]
  have run: "run_writes pf st (w # ws) = run_writes pf st1 ws" using w ex by simp
  show ?case
    unfolding run
    using ih fr(1) evicted_at_subseq [OF fr(3)] evicted_at_filter [OF fr(3) now]
    by (auto intro: subseq_order.order_trans)
qed

section \<open>The stores of the examples\<close>

lemma init_missing_file: "init pf now None = Inr empty_store"
  by (simp add: init_def replay_log_def empty_store_def)

lemma expired_store_reached:
  "snd (expire float_decimal 0 (snd (set_kv empty_store ''k'' ''v'')) ''k'' ''5'') = expired_store"
  by code_simp

lemma mixed_store_reached:
  "snd (expire float_decimal 0 (snd (set_kv (snd (set_kv empty_store ''a'' ''1'')) ''k'' ''v'')) ''k'' ''5'')
     = mixed_store"
  by code_simp

lemma float_decimal_abc: "float_decimal ''abc'' = None"
  by code_simp

lemma float_decimal_0: "float_decimal ''0'' = Some 0"
  by code_simp

lemma float_decimal_7: "float_decimal ''7'' = Some 7"
  by code_simp

lemma str_int_0: "str_int 0 = ''0''"
  by code_simp

section \<open>TTL of a buffered EXPIRE\<close>

text \<open>
  The expression of \<^verbatim>\<open>ttl\<close> for a buffered EXPIRE is the time between its two clock
  readings, whatever the duration; with one reading the reply is \<^verbatim>\<open>0\<close>.
\<close>

lemma txn_remaining_cancels: "txn_remaining ms t1 t2 = t2 - t1"
  by (simp add: txn_remaining_def)

lemma ttl_latest_expire:
  assumes "transaction_buffer st = Some buf"
    and "find (\<lambda>i. intent_key i = key) (rev buf) = Some (IExpire k arg)"
    and "pf arg = Some ms"
  shows "ttl pf now st key = (Inr ''0'', st)"
  using assms by (simp add: ttl_def txn_remaining_cancels py_int_def str_int_0)

section \<open>The keys stay strictly increasing\<close>

text \<open>Popping a record keeps the order of the others.\<close>

lemma nth_pop_at:
  "j < length xs - 1 \<Longrightarrow> i < length xs \<Longrightarrow> pop_at i xs ! j = (if j < i then xs ! j else xs ! Suc j)"
  by (auto simp: pop_at_def nth_append min_def)

lemma length_pop_at: "i < length xs \<Longrightarrow> length (pop_at i xs) = length xs - 1"
  by (auto simp: pop_at_def)

lemma sorted_wrt_pop_at:
  assumes "sorted_wrt (<) (xs :: string list)"
  shows "sorted_wrt (<) (pop_at i xs)"
proof (cases "i < length xs")
  case False
  then show ?thesis using assms by (simp add: pop_at_def)
next
  case True
  show ?thesis
    unfolding sorted_wrt_iff_nth_less
  proof (intro allI impI)
    fix a b assume ab: "a < b" "b < length (pop_at i xs)"
    then have b: "b < length xs - 1" using True by (simp add: length_pop_at)
    have "\<And>p q. p < q \<Longrightarrow> q < length xs \<Longrightarrow> xs ! p < xs ! q"
      using assms by (simp add: sorted_wrt_iff_nth_less)
    then show "pop_at i xs ! a < pop_at i xs ! b"
      using ab b True by (simp add: nth_pop_at)
  qed
qed

lemma map_fst_pop_at: "map fst (pop_at i xs) = pop_at i (map fst xs)"
  by (simp add: pop_at_def take_map drop_map)

text \<open>
  On strictly increasing keys \<^verbatim>\<open>bisect_left\<close> returns the position that splits the keys
  below the argument from the others.
\<close>

lemma bisect_loop_spec:
  assumes "sorted_wrt (<) a" and "lo \<le> hi" and "hi \<le> length a"
    and "\<forall>j<lo. a ! j < x" and "\<forall>j. hi \<le> j \<and> j < length a \<longrightarrow> x \<le> a ! j"
  shows "bisect_loop a x lo hi \<le> length a \<and>
         (\<forall>j<bisect_loop a x lo hi. a ! j < x) \<and>
         (\<forall>j. bisect_loop a x lo hi \<le> j \<and> j < length a \<longrightarrow> x \<le> a ! j)"
  using assms
proof (induction a x lo hi rule: bisect_loop.induct)
  case (1 a x lo hi)
  have nth_mono: "\<And>p q. p \<le> q \<Longrightarrow> q < length a \<Longrightarrow> a ! p \<le> a ! q"
  proof -
    fix p q assume "p \<le> q" "q < length a"
    then show "a ! p \<le> a ! q"
      using \<open>sorted_wrt (<) a\<close> by (cases "p = q") (auto simp: sorted_wrt_iff_nth_less less_imp_le)
  qed
  show ?case
  proof (cases "lo < hi")
    case False
    then have "bisect_loop a x lo hi = lo" by (simp add: bisect_loop.simps [of a x lo hi])
    moreover have "lo = hi" using False "1.prems"(2) by simp
    ultimately show ?thesis using "1.prems" by auto
  next
    case True
    let ?mid = "(lo + hi) div 2"
    have mid: "lo \<le> ?mid" "?mid < hi" using True by auto
    then have midlen: "?mid < length a" using "1.prems"(3) by simp
    show ?thesis
    proof (cases "a ! ?mid < x")
      case lt: True
      have eq: "bisect_loop a x lo hi = bisect_loop a x (?mid + 1) hi"
        using True lt by (simp add: bisect_loop.simps [of a x lo hi] Let_def)
      have below: "\<forall>j<?mid + 1. a ! j < x"
      proof (intro allI impI)
        fix j assume "j < ?mid + 1"
        then have "a ! j \<le> a ! ?mid" using nth_mono [of j ?mid] midlen by simp
        with lt show "a ! j < x" by simp
      qed
      show ?thesis
        unfolding eq
        using "1.IH"(1) [OF True refl lt "1.prems"(1) _ "1.prems"(3) below "1.prems"(5)] mid
        by simp
    next
      case ge: False
      have eq: "bisect_loop a x lo hi = bisect_loop a x lo ?mid"
        using True ge by (simp add: bisect_loop.simps [of a x lo hi] Let_def)
      have above: "\<forall>j. ?mid \<le> j \<and> j < length a \<longrightarrow> x \<le> a ! j"
      proof (intro allI impI)
        fix j assume "?mid \<le> j \<and> j < length a"
        then have "a ! ?mid \<le> a ! j" using nth_mono [of ?mid j] by simp
        with ge show "x \<le> a ! j" by simp
      qed
      have le: "?mid \<le> length a" using midlen by simp
      show ?thesis
        unfolding eq
        using "1.IH"(2) [OF True refl ge "1.prems"(1) mid(1) le "1.prems"(4) above]
        by simp
    qed
  qed
qed

lemma sorted_wrt_insert_at:
  assumes "sorted_wrt (<) (a :: string list)" and "x \<notin> set a"
  shows "sorted_wrt (<) (insert_at (bisect_left a x) x a)"
proof -
  let ?r = "bisect_left a x"
  have pre: "\<forall>j. length a \<le> j \<and> j < length a \<longrightarrow> x \<le> a ! j" "\<forall>j<0::nat. a ! j < x"
    by auto
  have spec: "?r \<le> length a" "\<forall>j<?r. a ! j < x" "\<forall>j. ?r \<le> j \<and> j < length a \<longrightarrow> x \<le> a ! j"
    using bisect_loop_spec [OF assms(1) _ _ pre(2) pre(1)] by (simp_all add: bisect_left_def)
  have split: "sorted_wrt (<) (take ?r a @ drop ?r a)" using assms(1) by simp
  have t: "\<forall>u\<in>set (take ?r a). u < x"
    using spec(1,2) by (auto simp: in_set_conv_nth)
  have d: "\<forall>w\<in>set (drop ?r a). x < w"
  proof
    fix w assume w: "w \<in> set (drop ?r a)"
    then obtain j where j: "j < length a - ?r" "w = a ! (?r + j)"
      by (auto simp: in_set_conv_nth)
    then have "x \<le> w" using spec(3) by simp
    moreover have "w \<in> set a" using w by (rule in_set_dropD)
    ultimately show "x < w" using assms(2) by (metis order_le_less)
  qed
  have cross: "\<forall>u\<in>set (take ?r a). \<forall>w\<in>set (drop ?r a). u < w"
    using t d by (meson order.strict_trans)
  show ?thesis
    unfolding insert_at_def
    using split t d cross by (auto simp: sorted_wrt_append)
qed

lemma map_fst_insert_at: "map fst (insert_at i e xs) = insert_at i (fst e) (map fst xs)"
  by (simp add: insert_at_def take_map drop_map)

lemma find_key_index_absent_iff:
  assumes "sorted_keys st"
  shows "find_key_index st k = - 1 \<longleftrightarrow> k \<notin> fst ` set (data st)"
proof
  assume "find_key_index st k = - 1"
  show "k \<notin> fst ` set (data st)"
  proof
    assume "k \<in> fst ` set (data st)"
    then obtain i where "i < length (data st)" "fst (data st ! i) = k"
      by (auto simp: in_set_conv_nth)
    then have "find_key_index st k = int i"
      using assms by (intro find_key_index_present) (auto simp: sorted_keys_def)
    with \<open>find_key_index st k = - 1\<close> show False by simp
  qed
qed (rule find_key_index_absent)

lemma sorted_keys_pop:
  "sorted_keys st \<Longrightarrow> sorted_keys (st\<lparr>data := pop_at i (data st)\<rparr>)"
  by (simp add: sorted_keys_def map_fst_pop_at sorted_wrt_pop_at)

lemma sorted_keys_update:
  assumes "sorted_keys st" and "i < length (data st)" and "fst (data st ! i) = k"
  shows "sorted_keys (st\<lparr>data := (data st)[i := (k, v, t)]\<rparr>)"
proof -
  have "map fst ((data st)[i := (k, v, t)]) = map fst (data st)"
    using assms(2,3) by (simp add: map_update list_update_same_conv)
  then show ?thesis using assms(1) by (simp add: sorted_keys_def)
qed

lemma sorted_keys_update_found:
  assumes "sorted_keys st" and "find_key_index st k \<noteq> - 1"
  shows "sorted_keys (st\<lparr>data := (data st)[nat (find_key_index st k) :=
           (fst (data st ! nat (find_key_index st k)), v, t)]\<rparr>)"
    and "sorted_keys (st\<lparr>data := (data st)[nat (find_key_index st k) := (k, v, t)]\<rparr>)"
  using find_key_index_sound [OF assms(2)] assms(1) by (simp_all add: sorted_keys_update)

lemma sorted_keys_set_key: "sorted_keys st \<Longrightarrow> sorted_keys (set_key st k v t)"
proof -
  assume s: "sorted_keys st"
  show ?thesis
  proof (cases "find_key_index st k = - 1")
    case True
    then have "k \<notin> set (map fst (data st))" using s by (simp add: find_key_index_absent_iff)
    then have "sorted_wrt (<) (insert_at (bisect_left (map fst (data st)) k) k (map fst (data st)))"
      using s by (intro sorted_wrt_insert_at) (simp_all add: sorted_keys_def)
    then show ?thesis using True by (simp add: set_key_def sorted_keys_def map_fst_insert_at)
  next
    case False
    then show ?thesis using sorted_keys_update_found(2) [OF s False] by (simp add: set_key_def Let_def)
  qed
qed


text \<open>Every operation of the store keeps the keys strictly increasing.\<close>

lemma sorted_keys_fields [simp]:
  "sorted_keys (st\<lparr>transaction_buffer := b\<rparr>) = sorted_keys st"
  "sorted_keys (st\<lparr>log_file := l\<rparr>) = sorted_keys st"
  "sorted_keys (write_to_log st c) = sorted_keys st"
  by (simp_all add: sorted_keys_def write_to_log_def)

lemma sorted_keys_is_expired:
  "sorted_keys st \<Longrightarrow> is_expired now st i = (b, st') \<Longrightarrow> sorted_keys st'"
  by (auto simp: is_expired_def sorted_keys_pop split: if_splits prod.splits option.splits)

lemma sorted_keys_get_key_index:
  "sorted_keys st \<Longrightarrow> get_key_index now st k c = (i, st') \<Longrightarrow> sorted_keys st'"
  by (auto simp: get_key_index_def Let_def split: if_splits prod.splits bool.splits
           dest: sorted_keys_is_expired)

lemma sorted_keys_delete_key:
  "sorted_keys st \<Longrightarrow> delete_key st k = (b, st') \<Longrightarrow> sorted_keys st'"
  by (auto simp: delete_key_def Let_def sorted_keys_pop split: if_splits)

lemma sorted_keys_apply_intents:
  "sorted_keys st \<Longrightarrow> sorted_keys (snd (apply_intents pf now st is))"
proof (induction "is" arbitrary: st)
  case Nil
  then show ?case by simp
next
  case (Cons i "is")
  show ?case
  proof (cases i)
    case (ISet k v t)
    then show ?thesis using Cons by (simp add: sorted_keys_set_key)
  next
    case (IDel k)
    obtain b st1 where d: "delete_key st k = (b, st1)" by (cases "delete_key st k") auto
    from sorted_keys_delete_key [OF Cons.prems d] have "sorted_keys st1" .
    then show ?thesis using IDel d Cons.IH by (cases b) simp_all
  next
    case (IExpire k ms)
    show ?thesis
    proof (cases "find_key_index st k = - 1")
      case True
      then show ?thesis using IExpire Cons by simp
    next
      case False
      show ?thesis
      proof (cases "pf ms")
        case None
        then show ?thesis using IExpire False Cons.prems by simp
      next
        case (Some m)
        obtain k' v' t' where e: "data st ! nat (find_key_index st k) = (k', v', t')"
          by (cases "data st ! nat (find_key_index st k)") auto
        have "sorted_keys (st\<lparr>data := (data st)[nat (find_key_index st k) := (k', v', Some (now + m))]\<rparr>)"
          using sorted_keys_update_found(1) [OF Cons.prems False, of v' "Some (now + m)"] e by simp
        then show ?thesis using IExpire False Some e Cons.IH by simp
      qed
    qed
  qed
qed

lemma sorted_keys_apply_intents_result:
  "sorted_keys st \<Longrightarrow> apply_intents pf now st is = (e, st') \<Longrightarrow> sorted_keys st'"
  using sorted_keys_apply_intents [of st pf now "is"] by simp

lemma sorted_keys_commit: "sorted_keys st \<Longrightarrow> sorted_keys (snd (commit pf now st))"
  by (auto simp: commit_def apply_transaction_def split: option.splits prod.splits if_splits
           dest: sorted_keys_apply_intents_result)

lemma sorted_keys_begin_abort:
  "sorted_keys st \<Longrightarrow> sorted_keys (snd (begin_kv st))"
  "sorted_keys st \<Longrightarrow> sorted_keys (snd (abort st))"
  by (simp_all add: begin_kv_def abort_def)

lemma sorted_keys_set_kv: "sorted_keys st \<Longrightarrow> sorted_keys (snd (set_kv st k v))"
  by (auto simp: set_kv_def Let_def sorted_keys_set_key split: option.splits)

lemma sorted_keys_get: "sorted_keys st \<Longrightarrow> sorted_keys (snd (get now st k))"
  by (auto simp: get_def split: option.splits prod.splits dest: sorted_keys_get_key_index)

lemma sorted_keys_exists_kv: "sorted_keys st \<Longrightarrow> sorted_keys (snd (exists_kv now st k))"
  by (auto simp: exists_kv_def split: option.splits prod.splits dest: sorted_keys_get_key_index)

lemma sorted_keys_delete: "sorted_keys st \<Longrightarrow> sorted_keys (snd (delete now st k))"
  by (auto simp: delete_def sorted_keys_pop split: option.splits prod.splits
           dest: sorted_keys_get_key_index)

lemma sorted_keys_range_kv: "sorted_keys st \<Longrightarrow> sorted_keys (snd (range_kv now st lo hi))"
  by (simp add: range_kv_def)


lemma sorted_keys_mset_buffer: "sorted_keys st \<Longrightarrow> sorted_keys (mset_buffer st args)"
  by (induction st args rule: mset_buffer.induct) (simp_all add: Let_def)

lemma sorted_keys_mset_apply: "sorted_keys st \<Longrightarrow> sorted_keys (mset_apply st args)"
  by (induction st args rule: mset_apply.induct) (simp_all add: sorted_keys_set_key)

lemma sorted_keys_mset_kv: "sorted_keys st \<Longrightarrow> sorted_keys (snd (mset_kv st args))"
  by (simp add: mset_kv_def sorted_keys_mset_buffer sorted_keys_mset_apply)

lemma sorted_keys_mget: "sorted_keys st \<Longrightarrow> sorted_keys (snd (mget now st keys))"
proof (induction keys arbitrary: st)
  case Nil
  then show ?case by simp
next
  case (Cons k keys)
  obtain r st1 where g: "get now st k = (r, st1)" by (cases "get now st k") auto
  then have "sorted_keys st1" using sorted_keys_get [OF Cons.prems, of now k] by simp
  from Cons.IH [OF this] g show ?case by (auto split: prod.splits)
qed

lemma sorted_keys_expire: "sorted_keys st \<Longrightarrow> sorted_keys (snd (expire pf now st k ms))"
proof -
  assume s: "sorted_keys st"
  have upd: "\<And>i k' v' t' t. find_key_index st k = i \<Longrightarrow> i \<noteq> - 1 \<Longrightarrow>
      data st ! nat i = (k', v', t') \<Longrightarrow>
      sorted_keys (st\<lparr>data := (data st)[nat i := (k', v', t)]\<rparr>)"
  proof -
    fix i k' v' t' t
    assume a: "find_key_index st k = i" "i \<noteq> - 1" "data st ! nat i = (k', v', t')"
    then have "find_key_index st k \<noteq> - 1" by simp
    from sorted_keys_update_found(1) [OF s this, of v' t] a
    show "sorted_keys (st\<lparr>data := (data st)[nat i := (k', v', t)]\<rparr>)" by simp
  qed
  show ?thesis
    using s upd
    by (auto simp: expire_def Let_def get_key_index_def sorted_keys_pop
             split: option.splits prod.splits if_splits bool.splits
             dest: sorted_keys_is_expired)
qed

lemma sorted_keys_ttl: "sorted_keys st \<Longrightarrow> sorted_keys (snd (ttl pf now st k))"
  by (auto simp: ttl_def Let_def get_key_index_def sorted_keys_pop
           split: option.splits prod.splits if_splits bool.splits intent.splits
           dest: sorted_keys_is_expired)

lemma sorted_keys_persist_buffer:
  "sorted_keys st \<Longrightarrow> sorted_keys (snd (persist_buffer now st buf k))"
  by (auto simp: persist_buffer_def Let_def
           split: option.splits prod.splits if_splits bool.splits
           dest: sorted_keys_is_expired)

lemma sorted_keys_persist: "sorted_keys st \<Longrightarrow> sorted_keys (snd (persist now st k))"
proof -
  assume s: "sorted_keys st"
  have upd: "\<And>i st' k' v' t'. get_key_index now st k True = (i, st') \<Longrightarrow> i \<noteq> - 1 \<Longrightarrow>
      data st' ! nat i = (k', v', t') \<Longrightarrow>
      sorted_keys (st'\<lparr>data := (data st')[nat i := (k', v', None)]\<rparr>)"
  proof -
    fix i st' k' v' t'
    assume a: "get_key_index now st k True = (i, st')" "i \<noteq> - 1" "data st' ! nat i = (k', v', t')"
    then have st': "st' = st" and i: "find_key_index st k = i"
      by (auto simp: get_key_index_def Let_def is_expired_def
               split: if_splits prod.splits option.splits bool.splits)
    from sorted_keys_update_found(1) [OF s, of k v' None] a i st'
    show "sorted_keys (st'\<lparr>data := (data st')[nat i := (k', v', None)]\<rparr>)" by simp
  qed
  show ?thesis
  proof (cases "transaction_buffer st")
    case None
    obtain i st' where g: "get_key_index now st k True = (i, st')"
      by (cases "get_key_index now st k True") auto
    have "sorted_keys st'" using sorted_keys_get_key_index [OF s g] .
    then show ?thesis using None g upd [OF g]
      by (auto simp: persist_def split: prod.splits if_splits)
  next
    case (Some buf)
    then show ?thesis
      using s sorted_keys_persist_buffer
      by (auto simp: persist_def Let_def split: prod.splits if_splits bool.splits
               dest: sorted_keys_is_expired)
  qed
qed

lemma sorted_keys_exec_write:
  "sorted_keys st \<Longrightarrow> sorted_keys (snd (exec_write pf now st c))"
  by (cases c)
     (simp_all add: sorted_keys_set_kv sorted_keys_delete sorted_keys_expire
        sorted_keys_persist sorted_keys_mset_kv)

lemma sorted_keys_run_writes:
  "sorted_keys st \<Longrightarrow> sorted_keys (run_writes pf st ws)"
  by (induction ws arbitrary: st) (auto simp: sorted_keys_exec_write)

lemma sorted_keys_replay_line:
  "sorted_keys st \<Longrightarrow> replay_line pf now st l = Inr st' \<Longrightarrow> sorted_keys st'"
proof -
  assume s: "sorted_keys st" and r: "replay_line pf now st l = Inr st'"
  have del: "\<And>k. sorted_keys (snd (delete_key st k))"
    using s by (auto simp: delete_key_def Let_def sorted_keys_pop)
  have upd: "\<And>k k' v' t' t. find_key_index st k \<noteq> - 1 \<Longrightarrow>
      data st ! nat (find_key_index st k) = (k', v', t') \<Longrightarrow>
      sorted_keys (st\<lparr>data := (data st)[nat (find_key_index st k) := (k', v', t)]\<rparr>)"
  proof -
    fix k k' v' t' t
    assume a: "find_key_index st k \<noteq> - 1" "data st ! nat (find_key_index st k) = (k', v', t')"
    from sorted_keys_update_found(1) [OF s a(1), of v' t] a(2)
    show "sorted_keys (st\<lparr>data := (data st)[nat (find_key_index st k) := (k', v', t)]\<rparr>)" by simp
  qed
  show ?thesis
    using r s del upd
    by (auto simp: replay_line_def Let_def sorted_keys_set_key
             split: if_splits option.splits prod.splits)
qed

lemma sorted_keys_replay_lines:
  "sorted_keys st \<Longrightarrow> replay_lines pf now st ls = Inr st' \<Longrightarrow> sorted_keys st'"
proof (induction ls arbitrary: st)
  case Nil
  then show ?case by simp
next
  case (Cons l ls)
  then show ?case
    by (auto split: sum.splits dest: sorted_keys_replay_line)
qed

text \<open>The store the constructor returns has strictly increasing keys.\<close>

lemma sorted_keys_init: "init pf now file = Inr st \<Longrightarrow> sorted_keys st"
proof -
  assume i: "init pf now file = Inr st"
  have e: "sorted_keys \<lparr>data = [], transaction_buffer = None, log_file = file\<rparr>"
    by (simp add: sorted_keys_def)
  show ?thesis
    using i e sorted_keys_replay_lines
    by (auto simp: init_def replay_log_def split: option.splits)
qed

section \<open>RANGE and EXPIRE with a transaction open\<close>

text \<open>
  With a transaction open, a key in the reply of \<^verbatim>\<open>RANGE\<close> has a SET intent in the buffer.
\<close>

lemma key_in_txn_needs_set: "key_in_txn key ris \<Longrightarrow> list_ex (is_set_on key) ris"
  by (induction key ris rule: key_in_txn.induct) (auto split: if_splits)

lemma range_kv_open_transaction:
  assumes "transaction_buffer st = Some buf" and "k \<in> set (fst (range_kv now st lo hi))"
  shows "k = ''END'' \<or> list_ex (is_set_on k) buf"
proof (cases "k = ''END''")
  case True
  then show ?thesis by simp
next
  case False
  with assms(2) obtain e where e: "e \<in> set (data st)" "range_keep now st lo hi e" "fst e = k"
    by (auto simp: range_kv_def)
  obtain v t where "e = (k, v, t)" using e(3) by (cases e) auto
  with e(2) assms(1) have "key_in_txn k (rev buf)"
    by (auto simp: range_keep_def split: if_splits)
  from key_in_txn_needs_set [OF this] show ?thesis by (simp add: list_ex_iff)
qed

text \<open>\<^verbatim>\<open>range\<close> returns the store it was given.\<close>

lemma range_kv_store: "snd (range_kv now st lo hi) = st"
  by (simp add: range_kv_def)

text \<open>
  A SET on the key anywhere in the buffer is enough for a buffered \<^verbatim>\<open>EXPIRE\<close> with a positive
  duration, whatever follows it.
\<close>

lemma expire_buffered_set:
  assumes "transaction_buffer st = Some buf" and "list_ex (is_set_on k) buf"
    and "pf ms = Some m" and "0 < m"
  shows "expire pf now st k ms = (''1'', st\<lparr>transaction_buffer := Some (buf @ [IExpire k ms])\<rparr>)"
  using assms by (simp add: expire_def)

text \<open>
  What the scan of \<^verbatim>\<open>exists\<close> finds in the buffer, against the scan of \<^verbatim>\<open>expire\<close>; and
  \<^verbatim>\<open>_is_expired\<close> on a stored record.
\<close>

lemma exists_scan_set: "exists_scan k ris = Some ''1'' \<Longrightarrow> list_ex (is_set_on k) ris"
  by (induction k ris rule: exists_scan.induct) (auto split: if_splits)

lemma exists_scan_none: "exists_scan k ris = None \<Longrightarrow> \<not> list_ex (is_set_on k) ris"
  by (induction k ris rule: exists_scan.induct) (auto split: if_splits)

lemma list_ex_rev: "list_ex P (rev xs) = list_ex P xs"
  by (simp add: list_ex_iff)

lemma is_expired_at:
  assumes "i < length (data st)" and "data st ! i = e"
  shows "is_expired now st (int i) =
           (if deadline_passed now e then (True, st\<lparr>data := pop_at i (data st)\<rparr>) else (False, st))"
  using assms
  by (cases e) (auto simp: is_expired_def deadline_passed_def split: option.splits)

section \<open>Claims\<close>

text \<open>
  C1. With a transaction open, \<^verbatim>\<open>RANGE\<close> should emit a committed, unexpired key in range
  that no buffered intent touches, as key \<^verbatim>\<open>c\<close> in scenario S6. In the code \<^verbatim>\<open>key_in_txn\<close>
  stays \<^verbatim>\<open>False\<close> for such a key and the key is skipped: on the store of S6, whose
  keyspace holds \<^verbatim>\<open>a\<close> and \<^verbatim>\<open>c\<close> and whose buffer is \<^verbatim>\<open>SET b\<close>, \<^verbatim>\<open>DEL a\<close>, the reply to
  \<^verbatim>\<open>RANGE a z\<close> is the terminator alone.
\<close>

theorem C1_range_drops_untouched_key:
  "data s6_store = [(''a'', ''1'', None), (''c'', ''3'', None)] \<and>
   transaction_buffer s6_store = Some [ISet ''b'' ''2'' None, IDel ''a''] \<and>
   fst (range_kv 0 s6_store ''a'' ''z'') = [''END'']"
  by code_simp

text \<open>
  C2. With a transaction open and \<^verbatim>\<open>EXPIRE k 60\<close> the latest intent on \<^verbatim>\<open>k\<close>, \<^verbatim>\<open>TTL k\<close> should
  report the argument, 60. The code replies \<^verbatim>\<open>0\<close>.
\<close>

theorem C2_ttl_buffered_expire:
  "transaction_buffer buffered_expire_store = Some [ISet ''k'' ''v'' None, IExpire ''k'' ''60''] \<and>
   fst (ttl float_decimal 7 buffered_expire_store ''k'') = Inr ''0''"
  by code_simp

text \<open>
  C3. \<^verbatim>\<open>EXPIRE k 100\<close> inside a transaction whose latest intent on \<^verbatim>\<open>k\<close> is a DEL should
  reply \<^verbatim>\<open>0\<close> and append nothing. After \<^verbatim>\<open>BEGIN\<close>, \<^verbatim>\<open>SET k v\<close>, \<^verbatim>\<open>DEL k\<close>, where \<^verbatim>\<open>EXISTS k\<close>
  replies \<^verbatim>\<open>0\<close>, the code replies \<^verbatim>\<open>1\<close> and appends the EXPIRE intent.
\<close>

theorem C3_expire_after_buffered_del:
  "transaction_buffer set_del_store = Some [ISet ''k'' ''v'' None, IDel ''k''] \<and>
   data set_del_store = [] \<and>
   fst (exists_kv 0 set_del_store ''k'') = ''0'' \<and>
   fst (expire float_decimal 0 set_del_store ''k'' ''100'') = ''1'' \<and>
   transaction_buffer (snd (expire float_decimal 0 set_del_store ''k'' ''100''))
     = Some [ISet ''k'' ''v'' None, IDel ''k'', IExpire ''k'' ''100'']"
  by code_simp

text \<open>
  C4. Replay should skip an \<^verbatim>\<open>EXPIRE\<close> line whose third token is not numeric. On the log
  \<^verbatim>\<open>SET a 1\<close>, \<^verbatim>\<open>EXPIRE a abc\<close> the \<^verbatim>\<open>ValueError\<close> of \<^verbatim>\<open>float\<close> leaves \<^verbatim>\<open>_replay_log\<close> and the
  constructor.
\<close>

theorem C4_replay_raises:
  "float_decimal ''abc'' = None \<and>
   init float_decimal 0 (Some (''SET a 1'' @ [CHR 0x0A] @ ''EXPIRE a abc'' @ [CHR 0x0A]))
     = Inl ValueError"
  by code_simp

text \<open>
  C5. \<^verbatim>\<open>RANGE\<close> should remove a record whose deadline has passed when it meets it. At
  clock reading 10 the record of \<^verbatim>\<open>k\<close>, deadline 5, is left out of the reply of
  \<^verbatim>\<open>RANGE a z\<close> but is still stored afterwards; \<^verbatim>\<open>EXISTS k\<close> on the same store removes it.
\<close>

theorem C5_range_keeps_expired_record:
  "data expired_store = [(''k'', ''v'', Some 5)] \<and>
   fst (range_kv 10 expired_store ''a'' ''z'') = [''END''] \<and>
   data (snd (range_kv 10 expired_store ''a'' ''z'')) = [(''k'', ''v'', Some 5)] \<and>
   data (snd (exists_kv 10 expired_store ''k'')) = []"
  by code_simp

text \<open>
  C6. \<^verbatim>\<open>DEL k\<close> then \<^verbatim>\<open>PERSIST k\<close> on a key with a deadline should leave the same keyspace
  whether run directly or between \<^verbatim>\<open>BEGIN\<close> and \<^verbatim>\<open>COMMIT\<close>. Run directly the key is gone;
  committed from a transaction it is back, without deadline.
\<close>

theorem C6_del_persist_differs:
  "data armed_store = [(''k'', ''v'', Some 60)] \<and>
   data (run_writes float_decimal armed_store [(1, WDel ''k''), (2, WPersist ''k'')]) = [] \<and>
   fst (commit float_decimal 3
          (run_writes float_decimal (snd (begin_kv armed_store))
             [(1, WDel ''k''), (2, WPersist ''k'')])) = Inr ''OK'' \<and>
   data (snd (commit float_decimal 3
          (run_writes float_decimal (snd (begin_kv armed_store))
             [(1, WDel ''k''), (2, WPersist ''k'')]))) = [(''k'', ''v'', None)]"
  by code_simp

text \<open>
  C7. For an existing key with an armed deadline, stored in a keyspace with strictly
  increasing keys, a plain \<^verbatim>\<open>SET\<close> replaces the value and keeps the deadline, both outside
  a transaction and when it is buffered after \<^verbatim>\<open>BEGIN\<close> and then committed; every other
  record is left as it was.
\<close>

theorem C7_set_preserves_deadline:
  assumes "sorted_keys st" and "transaction_buffer st = None"
    and "i < length (data st)" and "data st ! i = (k, v0, Some d)"
  shows "fst (set_kv st k v) = ''OK'' \<and>
         data (snd (set_kv st k v)) = (data st)[i := (k, v, Some d)] \<and>
         fst (commit pf now (snd (set_kv (snd (begin_kv st)) k v))) = Inr ''OK'' \<and>
         data (snd (commit pf now (snd (set_kv (snd (begin_kv st)) k v))))
           = (data st)[i := (k, v, Some d)]"
proof -
  have idx: "\<And>b. find_key_index (st\<lparr>transaction_buffer := b\<rparr>) k = int i"
    using assms by (intro find_key_index_present) (auto simp: sorted_keys_def)
  have idx0: "find_key_index st k = int i"
    using assms by (intro find_key_index_present) (auto simp: sorted_keys_def)
  have out: "set_kv st k v =
      (''OK'', write_to_log (st\<lparr>data := (data st)[i := (k, v, Some d)]\<rparr>) (''SET '' @ k @ '' '' @ v))"
    using assms(2,4) idx0 by (simp add: set_kv_def set_key_def)
  have buf: "snd (set_kv (snd (begin_kv st)) k v) = st\<lparr>transaction_buffer := Some [ISet k v (Some d)]\<rparr>"
    using assms(2,4) idx by (simp add: set_kv_def begin_kv_def)
  have com: "commit pf now (st\<lparr>transaction_buffer := Some [ISet k v (Some d)]\<rparr>) =
      (Inr ''OK'', (write_to_log (st\<lparr>transaction_buffer := Some [ISet k v (Some d)],
              data := (data st)[i := (k, v, Some d)]\<rparr>) (''SET '' @ k @ '' '' @ v))\<lparr>transaction_buffer := None\<rparr>)"
    using idx by (simp add: commit_def apply_transaction_def set_key_def)
  show ?thesis by (simp add: out buf com write_to_log_def)
qed

text \<open>C7 on the store holding \<^verbatim>\<open>k\<close> with deadline 5.\<close>

theorem C7_witness:
  "sorted_keys expired_store \<and> transaction_buffer expired_store = None \<and>
   data expired_store ! 0 = (''k'', ''v'', Some 5) \<and>
   data (snd (set_kv expired_store ''k'' ''w'')) = [(''k'', ''w'', Some 5)] \<and>
   data (snd (commit float_decimal 1 (snd (set_kv (snd (begin_kv expired_store)) ''k'' ''w''))))
     = [(''k'', ''w'', Some 5)]"
  using C7_set_preserves_deadline [of expired_store 0 "''k''" "''v''" 5 "''w''" float_decimal 1]
  by (simp add: expired_store_def sorted_keys_def)

text \<open>
  C8, as stated: \<^verbatim>\<open>ABORT\<close> leaves the keyspace as it was before \<^verbatim>\<open>BEGIN\<close>. It does not when
  a buffered \<^verbatim>\<open>EXPIRE\<close> has met a record whose deadline has passed: \<^verbatim>\<open>BEGIN\<close>,
  \<^verbatim>\<open>EXPIRE k 7\<close> at clock reading 10, \<^verbatim>\<open>ABORT\<close> on the store holding \<^verbatim>\<open>k\<close> with deadline 5
  leaves an empty keyspace.
\<close>

theorem C8_abort_after_eviction:
  "data expired_store = [(''k'', ''v'', Some 5)] \<and>
   fst (abort (run_writes float_decimal (snd (begin_kv expired_store)) [(10, WExpire ''k'' ''7'')])) = ''OK'' \<and>
   data (snd (abort (run_writes float_decimal (snd (begin_kv expired_store))
                       [(10, WExpire ''k'' ''7'')]))) = []"
  by code_simp

text \<open>
  C8, amended. After \<^verbatim>\<open>BEGIN\<close> and any sequence of buffered writes (SET, DEL, EXPIRE,
  PERSIST, MSET), \<^verbatim>\<open>ABORT\<close> replies \<^verbatim>\<open>OK\<close>, closes the transaction and leaves the log file
  unchanged; the keyspace is a subsequence of the keyspace before \<^verbatim>\<open>BEGIN\<close> that still
  holds, in their order, all records whose deadline had not passed at any of the writes'
  clock readings.
\<close>

theorem C8_abort_keeps_log_and_live_records:
  assumes "transaction_buffer st = None"
  shows "fst (abort (run_writes pf (snd (begin_kv st)) ws)) = ''OK'' \<and>
         transaction_buffer (snd (abort (run_writes pf (snd (begin_kv st)) ws))) = None \<and>
         log_file (snd (abort (run_writes pf (snd (begin_kv st)) ws))) = log_file st \<and>
         subseq (data (snd (abort (run_writes pf (snd (begin_kv st)) ws)))) (data st) \<and>
         filter (kept_at (map fst ws)) (data (snd (abort (run_writes pf (snd (begin_kv st)) ws))))
           = filter (kept_at (map fst ws)) (data st)"
proof -
  let ?b = "st\<lparr>transaction_buffer := Some []\<rparr>"
  have b: "snd (begin_kv st) = ?b" using assms by (simp add: begin_kv_def)
  have "transaction_buffer ?b \<noteq> None" by simp
  from run_writes_frame [OF this, of ws "map fst ws" pf]
  have fr: "log_file (run_writes pf ?b ws) = log_file st"
    "transaction_buffer (run_writes pf ?b ws) \<noteq> None"
    "subseq (data (run_writes pf ?b ws)) (data st)"
    "filter (kept_at (map fst ws)) (data (run_writes pf ?b ws)) = filter (kept_at (map fst ws)) (data st)"
    by simp_all
  show ?thesis unfolding b using fr by (simp add: abort_def)
qed

text \<open>
  C8 amended, on the store holding \<^verbatim>\<open>a\<close> without deadline and \<^verbatim>\<open>k\<close> with deadline 5, for
  the writes \<^verbatim>\<open>EXPIRE k 7\<close> and \<^verbatim>\<open>SET a 2\<close> at clock reading 10.
\<close>

theorem C8_witness:
  "transaction_buffer mixed_store = None \<and>
   log_file (snd (abort (run_writes float_decimal (snd (begin_kv mixed_store))
                          [(10, WExpire ''k'' ''7''), (10, WSet ''a'' ''2'')])))
     = log_file mixed_store \<and>
   subseq (data (snd (abort (run_writes float_decimal (snd (begin_kv mixed_store))
                          [(10, WExpire ''k'' ''7''), (10, WSet ''a'' ''2'')]))))
          [(''a'', ''1'', None), (''k'', ''v'', Some 5)] \<and>
   filter (kept_at [10, 10])
     (data (snd (abort (run_writes float_decimal (snd (begin_kv mixed_store))
                          [(10, WExpire ''k'' ''7''), (10, WSet ''a'' ''2'')]))))
     = [(''a'', ''1'', None)]"
  using C8_abort_keeps_log_and_live_records
          [of mixed_store float_decimal "[(10, WExpire ''k'' ''7''), (10, WSet ''a'' ''2'')]"]
  by (simp add: mixed_store_def kept_at_def deadline_passed_def)

text \<open>
  C9, as stated: \<^verbatim>\<open>EXPIRE\<close> replies \<^verbatim>\<open>0\<close> if the key is absent, and for a duration at most 0
  it removes the key if present and logs a DEL. For a key that is not stored and the
  duration 0 the code replies \<^verbatim>\<open>1\<close> and leaves the store, log included, as it was; and
  inside a transaction \<^verbatim>\<open>EXPIRE k 0\<close> on the stored, unexpired key \<^verbatim>\<open>k\<close> replies \<^verbatim>\<open>1\<close> with the
  record still stored and nothing logged.
\<close>

theorem C9_expire_nonpositive_diverges:
  "data empty_store = [] \<and> float_decimal ''0'' = Some 0 \<and>
   expire float_decimal 0 empty_store ''k'' ''0'' = (''1'', empty_store) \<and>
   data (snd (begin_kv expired_store)) = [(''k'', ''v'', Some 5)] \<and>
   fst (expire float_decimal 1 (snd (begin_kv expired_store)) ''k'' ''0'') = ''1'' \<and>
   data (snd (expire float_decimal 1 (snd (begin_kv expired_store)) ''k'' ''0''))
     = [(''k'', ''v'', Some 5)] \<and>
   log_file (snd (expire float_decimal 1 (snd (begin_kv expired_store)) ''k'' ''0''))
     = log_file expired_store"
  by code_simp

text \<open>
  C9, amended. \<^verbatim>\<open>EXPIRE k ms\<close> replies \<^verbatim>\<open>ERR invalid TTL value\<close>, with no state change and no
  log append, if \<^verbatim>\<open>ms\<close> is not numeric. For a duration at most 0 it replies \<^verbatim>\<open>1\<close> whether or
  not the key is present: outside a transaction it removes the key and logs \<^verbatim>\<open>DEL k\<close> if
  the key is stored and changes nothing if it is not; inside a transaction it buffers a
  DEL intent and touches neither keyspace nor log. For a positive duration it replies
  \<^verbatim>\<open>1\<close> if a deadline was armed and \<^verbatim>\<open>0\<close> if the key is absent:
  \<^item> outside a transaction, a stored key whose deadline has not passed gets the deadline
    clock reading plus duration and \<^verbatim>\<open>EXPIRE k ms\<close> is logged, reply \<^verbatim>\<open>1\<close>; a key that is not
    stored gives \<^verbatim>\<open>0\<close> and no change;
  \<^item> inside a transaction, when the latest SET or DEL intent on the key is a SET, or no
    SET or DEL intent touches it and the key is stored with its deadline not passed, the
    EXPIRE intent is buffered, reply \<^verbatim>\<open>1\<close>; when no SET or DEL intent touches the key and
    it is not stored, or stored with its deadline passed (the record is then evicted),
    the reply is \<^verbatim>\<open>0\<close> and nothing is buffered.
  Where a stored key is looked up, the keys are strictly increasing. The intents of the
  buffer are read as \<^verbatim>\<open>exists\<close> reads them.
\<close>

theorem C9_expire_replies:
  "(pf ms = None \<longrightarrow> expire pf now st k ms = (''ERR invalid TTL value'', st)) \<and>
   (transaction_buffer st = None \<and> pf ms = Some m \<and> m \<le> 0 \<and> k \<notin> fst ` set (data st) \<longrightarrow>
      expire pf now st k ms = (''1'', st)) \<and>
   (transaction_buffer st = None \<and> sorted_keys st \<and> pf ms = Some m \<and> m \<le> 0 \<and>
    i < length (data st) \<and> fst (data st ! i) = k \<longrightarrow>
      expire pf now st k ms =
        (''1'', st\<lparr>data := pop_at i (data st),
                   log_file := Some ((case log_file st of None \<Rightarrow> [] | Some s \<Rightarrow> s)
                                       @ ''DEL '' @ k @ [CHR 0x0A])\<rparr>)) \<and>
   (transaction_buffer st = Some buf \<and> pf ms = Some m \<and> m \<le> 0 \<longrightarrow>
      expire pf now st k ms = (''1'', st\<lparr>transaction_buffer := Some (buf @ [IDel k])\<rparr>)) \<and>
   (transaction_buffer st = None \<and> pf ms = Some m \<and> 0 < m \<and> k \<notin> fst ` set (data st) \<longrightarrow>
      expire pf now st k ms = (''0'', st)) \<and>
   (transaction_buffer st = None \<and> sorted_keys st \<and> pf ms = Some m \<and> 0 < m \<and>
    i < length (data st) \<and> data st ! i = (k, v, d) \<and> \<not> deadline_passed now (k, v, d) \<longrightarrow>
      expire pf now st k ms =
        (''1'', st\<lparr>data := (data st)[i := (k, v, Some (now + m))],
                   log_file := Some ((case log_file st of None \<Rightarrow> [] | Some s \<Rightarrow> s)
                                       @ ''EXPIRE '' @ k @ '' '' @ ms @ [CHR 0x0A])\<rparr>)) \<and>
   (transaction_buffer st = Some buf \<and> pf ms = Some m \<and> 0 < m \<and>
    exists_scan k (rev buf) = Some ''1'' \<longrightarrow>
      expire pf now st k ms = (''1'', st\<lparr>transaction_buffer := Some (buf @ [IExpire k ms])\<rparr>)) \<and>
   (transaction_buffer st = Some buf \<and> pf ms = Some m \<and> 0 < m \<and>
    exists_scan k (rev buf) = None \<and> k \<notin> fst ` set (data st) \<longrightarrow>
      expire pf now st k ms = (''0'', st)) \<and>
   (transaction_buffer st = Some buf \<and> sorted_keys st \<and> pf ms = Some m \<and> 0 < m \<and>
    exists_scan k (rev buf) = None \<and>
    i < length (data st) \<and> data st ! i = (k, v, d) \<and> \<not> deadline_passed now (k, v, d) \<longrightarrow>
      expire pf now st k ms = (''1'', st\<lparr>transaction_buffer := Some (buf @ [IExpire k ms])\<rparr>)) \<and>
   (transaction_buffer st = Some buf \<and> sorted_keys st \<and> pf ms = Some m \<and> 0 < m \<and>
    exists_scan k (rev buf) = None \<and>
    i < length (data st) \<and> data st ! i = (k, v, d) \<and> deadline_passed now (k, v, d) \<longrightarrow>
      expire pf now st k ms = (''0'', st\<lparr>data := pop_at i (data st)\<rparr>))"
proof -
  have absent: "k \<notin> fst ` set (data st) \<Longrightarrow> find_key_index st k = - 1"
    by (rule find_key_index_absent)
  have present: "sorted_keys st \<Longrightarrow> i < length (data st) \<Longrightarrow> fst (data st ! i) = k \<Longrightarrow>
      find_key_index st k = int i"
    by (intro find_key_index_present) (auto simp: sorted_keys_def)
  have c1: "pf ms = None \<longrightarrow> expire pf now st k ms = (''ERR invalid TTL value'', st)"
    by (simp add: expire_def)
  have c2: "transaction_buffer st = None \<and> pf ms = Some m \<and> m \<le> 0 \<and> k \<notin> fst ` set (data st) \<longrightarrow>
      expire pf now st k ms = (''1'', st)"
    using absent by (simp add: expire_def)
  have c3: "transaction_buffer st = None \<and> sorted_keys st \<and> pf ms = Some m \<and> m \<le> 0 \<and>
    i < length (data st) \<and> fst (data st ! i) = k \<longrightarrow>
      expire pf now st k ms =
        (''1'', st\<lparr>data := pop_at i (data st),
                   log_file := Some ((case log_file st of None \<Rightarrow> [] | Some s \<Rightarrow> s)
                                       @ ''DEL '' @ k @ [CHR 0x0A])\<rparr>)"
    using present by (simp add: expire_def write_to_log_def)
  have c4: "transaction_buffer st = Some buf \<and> pf ms = Some m \<and> m \<le> 0 \<longrightarrow>
      expire pf now st k ms = (''1'', st\<lparr>transaction_buffer := Some (buf @ [IDel k])\<rparr>)"
    by (simp add: expire_def)
  have c5: "transaction_buffer st = None \<and> pf ms = Some m \<and> 0 < m \<and> k \<notin> fst ` set (data st) \<longrightarrow>
      expire pf now st k ms = (''0'', st)"
    using absent by (simp add: expire_def get_key_index_def)
  have c6: "transaction_buffer st = None \<and> sorted_keys st \<and> pf ms = Some m \<and> 0 < m \<and>
    i < length (data st) \<and> data st ! i = (k, v, d) \<and> \<not> deadline_passed now (k, v, d) \<longrightarrow>
      expire pf now st k ms =
        (''1'', st\<lparr>data := (data st)[i := (k, v, Some (now + m))],
                   log_file := Some ((case log_file st of None \<Rightarrow> [] | Some s \<Rightarrow> s)
                                       @ ''EXPIRE '' @ k @ '' '' @ ms @ [CHR 0x0A])\<rparr>)"
    using present by (simp add: expire_def get_key_index_def write_to_log_def)
  have c7: "transaction_buffer st = Some buf \<and> pf ms = Some m \<and> 0 < m \<and>
    exists_scan k (rev buf) = Some ''1'' \<longrightarrow>
      expire pf now st k ms = (''1'', st\<lparr>transaction_buffer := Some (buf @ [IExpire k ms])\<rparr>)"
    using exists_scan_set [of k "rev buf"] by (simp add: expire_def list_ex_rev)
  have c8: "transaction_buffer st = Some buf \<and> pf ms = Some m \<and> 0 < m \<and>
    exists_scan k (rev buf) = None \<and> k \<notin> fst ` set (data st) \<longrightarrow>
      expire pf now st k ms = (''0'', st)"
    using exists_scan_none [of k "rev buf"] absent by (simp add: expire_def list_ex_rev)
  have c9: "transaction_buffer st = Some buf \<and> sorted_keys st \<and> pf ms = Some m \<and> 0 < m \<and>
    exists_scan k (rev buf) = None \<and>
    i < length (data st) \<and> data st ! i = (k, v, d) \<and> \<not> deadline_passed now (k, v, d) \<longrightarrow>
      expire pf now st k ms = (''1'', st\<lparr>transaction_buffer := Some (buf @ [IExpire k ms])\<rparr>)"
    using exists_scan_none [of k "rev buf"] present is_expired_at [of i st "(k, v, d)" now]
    by (simp add: expire_def list_ex_rev)
  have c10: "transaction_buffer st = Some buf \<and> sorted_keys st \<and> pf ms = Some m \<and> 0 < m \<and>
    exists_scan k (rev buf) = None \<and>
    i < length (data st) \<and> data st ! i = (k, v, d) \<and> deadline_passed now (k, v, d) \<longrightarrow>
      expire pf now st k ms = (''0'', st\<lparr>data := pop_at i (data st)\<rparr>)"
    using exists_scan_none [of k "rev buf"] present is_expired_at [of i st "(k, v, d)" now]
    by (simp add: expire_def list_ex_rev)
  from c1 c2 c3 c4 c5 c6 c7 c8 c9 c10 show ?thesis by blast
qed

text \<open>
  C9 amended, outside a transaction and inside one: for a token that is not numeric, for
  a key that is not stored, and for the durations 0 and 7 on the store holding \<^verbatim>\<open>k\<close> with
  deadline 5, at the clock readings 1 and 10.
\<close>

theorem C9_witness:
  "expire float_decimal 1 expired_store ''k'' ''abc'' = (''ERR invalid TTL value'', expired_store) \<and>
   expire float_decimal 1 empty_store ''k'' ''0'' = (''1'', empty_store) \<and>
   expire float_decimal 1 empty_store ''k'' ''7'' = (''0'', empty_store) \<and>
   expire float_decimal 1 expired_store ''k'' ''0'' =
     (''1'', \<lparr>data = [], transaction_buffer = None,
             log_file = Some (''SET k v'' @ [CHR 0x0A] @ ''EXPIRE k 5'' @ [CHR 0x0A]
                                @ ''DEL k'' @ [CHR 0x0A])\<rparr>) \<and>
   expire float_decimal 1 expired_store ''k'' ''7'' =
     (''1'', \<lparr>data = [(''k'', ''v'', Some 8)], transaction_buffer = None,
             log_file = Some (''SET k v'' @ [CHR 0x0A] @ ''EXPIRE k 5'' @ [CHR 0x0A]
                                @ ''EXPIRE k 7'' @ [CHR 0x0A])\<rparr>) \<and>
   expire float_decimal 1 (expired_store\<lparr>transaction_buffer := Some []\<rparr>) ''k'' ''0'' =
     (''1'', expired_store\<lparr>transaction_buffer := Some [IDel ''k'']\<rparr>) \<and>
   expire float_decimal 1 (expired_store\<lparr>transaction_buffer := Some []\<rparr>) ''k'' ''7'' =
     (''1'', expired_store\<lparr>transaction_buffer := Some [IExpire ''k'' ''7'']\<rparr>) \<and>
   expire float_decimal 10 (expired_store\<lparr>transaction_buffer := Some []\<rparr>) ''k'' ''7'' =
     (''0'', expired_store\<lparr>transaction_buffer := Some [], data := []\<rparr>) \<and>
   expire float_decimal 1 (empty_store\<lparr>transaction_buffer := Some []\<rparr>) ''k'' ''7'' =
     (''0'', empty_store\<lparr>transaction_buffer := Some []\<rparr>) \<and>
   expire float_decimal 1 (empty_store\<lparr>transaction_buffer := Some [ISet ''k'' ''w'' None]\<rparr>) ''k'' ''7'' =
     (''1'', empty_store\<lparr>transaction_buffer := Some [ISet ''k'' ''w'' None, IExpire ''k'' ''7'']\<rparr>)"
  using
    C9_expire_replies [where pf = float_decimal and ms = "''abc''" and now = 1
      and st = expired_store and k = "''k''"]
    C9_expire_replies [where pf = float_decimal and ms = "''0''" and now = 1
      and st = empty_store and k = "''k''" and m = 0]
    C9_expire_replies [where pf = float_decimal and ms = "''7''" and now = 1
      and st = empty_store and k = "''k''" and m = 7]
    C9_expire_replies [where pf = float_decimal and ms = "''0''" and now = 1
      and st = expired_store and k = "''k''" and m = 0 and i = 0]
    C9_expire_replies [where pf = float_decimal and ms = "''7''" and now = 1
      and st = expired_store and k = "''k''" and m = 7 and i = 0 and v = "''v''" and d = "Some 5"]
    C9_expire_replies [where pf = float_decimal and ms = "''0''" and now = 1
      and st = "expired_store\<lparr>transaction_buffer := Some []\<rparr>" and k = "''k''" and m = 0
      and buf = "[]"]
    C9_expire_replies [where pf = float_decimal and ms = "''7''" and now = 1
      and st = "expired_store\<lparr>transaction_buffer := Some []\<rparr>" and k = "''k''" and m = 7
      and buf = "[]" and i = 0 and v = "''v''" and d = "Some 5"]
    C9_expire_replies [where pf = float_decimal and ms = "''7''" and now = 10
      and st = "expired_store\<lparr>transaction_buffer := Some []\<rparr>" and k = "''k''" and m = 7
      and buf = "[]" and i = 0 and v = "''v''" and d = "Some 5"]
    C9_expire_replies [where pf = float_decimal and ms = "''7''" and now = 1
      and st = "empty_store\<lparr>transaction_buffer := Some []\<rparr>" and k = "''k''" and m = 7
      and buf = "[]"]
    C9_expire_replies [where pf = float_decimal and ms = "''7''" and now = 1
      and st = "empty_store\<lparr>transaction_buffer := Some [ISet ''k'' ''w'' None]\<rparr>"
      and k = "''k''" and m = 7 and buf = "[ISet ''k'' ''w'' None]"]
  by (simp add: float_decimal_abc float_decimal_0 float_decimal_7 expired_store_def
        empty_store_def sorted_keys_def pop_at_def deadline_passed_def)

text \<open>
  C10. Outside a transaction, \<^verbatim>\<open>DEL\<close> of a key whose deadline has passed but whose record is
  still stored replies \<^verbatim>\<open>1\<close>, removes the record and appends \<^verbatim>\<open>DEL key\<close> to the log,
  whereas \<^verbatim>\<open>EXISTS\<close> at the same clock reading reports the key absent.
\<close>

theorem C10_delete_ignores_expiry:
  assumes "sorted_keys st" and "transaction_buffer st = None"
    and "i < length (data st)" and "data st ! i = (k, v, Some d)" and "d < now"
  shows "delete now st k =
           (''1'', st\<lparr>data := pop_at i (data st),
                      log_file := Some ((case log_file st of None \<Rightarrow> [] | Some s \<Rightarrow> s)
                                          @ ''DEL '' @ k @ [CHR 0x0A])\<rparr>)
         \<and> fst (exists_kv now st k) = ''0''"
proof -
  have idx: "find_key_index st k = int i"
    using assms by (intro find_key_index_present) (auto simp: sorted_keys_def)
  have "delete now st k =
           (''1'', st\<lparr>data := pop_at i (data st),
                      log_file := Some ((case log_file st of None \<Rightarrow> [] | Some s \<Rightarrow> s)
                                          @ ''DEL '' @ k @ [CHR 0x0A])\<rparr>)"
    using assms(2) idx by (simp add: delete_def get_key_index_def write_to_log_def)
  moreover have "fst (exists_kv now st k) = ''0''"
    using assms(2,3,4,5) idx by (simp add: exists_kv_def get_key_index_def is_expired_def)
  ultimately show ?thesis by simp
qed

text \<open>C10 on the store holding \<^verbatim>\<open>k\<close> with deadline 5, at clock reading 10.\<close>

theorem C10_witness:
  "sorted_keys expired_store \<and> transaction_buffer expired_store = None \<and>
   data expired_store ! 0 = (''k'', ''v'', Some 5) \<and> (5::real) < 10 \<and>
   delete 10 expired_store ''k'' =
     (''1'', \<lparr>data = [], transaction_buffer = None,
             log_file = Some (''SET k v'' @ [CHR 0x0A] @ ''EXPIRE k 5'' @ [CHR 0x0A] @ ''DEL k'' @ [CHR 0x0A])\<rparr>) \<and>
   fst (exists_kv 10 expired_store ''k'') = ''0''"
  using C10_delete_ignores_expiry [of expired_store 0 "''k''" "''v''" 5 10]
  by (simp add: expired_store_def sorted_keys_def pop_at_def)

end
